theory Spec2Isabelle
  imports Complex_Main
begin

section \<open>Numbers\<close>

text \<open>
  Both scripts (\<^verbatim>\<open>src/pystan_tutorial_1.py\<close> and
  \<^verbatim>\<open>src/2019-01-14/pystan_tutorial_1.py\<close>) summarise the posterior draws with the
  same statements: a copy of the draw table, a summary table created with three declared
  columns, a loop over \<^verbatim>\<open>range(0, 6)\<close> and two derived columns. The embedding
  below follows these statements one by one.

  The scripts compute in binary floating point (float64). The embedding keeps the range
  of that format and idealises its precision: a number is a real, \<open>+inf\<close> or \<open>-inf\<close>,
  the result of an addition, subtraction or multiplication of the scripts becomes
  infinite exactly when float64 overflows (magnitude \<open>2^1024 - 2^970\<close> or more), and
  rounding inside the range is not modelled. NaN is the missing cell of a table and is
  written \<open>None\<close>.
\<close>

datatype xreal = NInf | Finite real | PInf

instantiation xreal :: linorder
begin

fun less_eq_xreal :: "xreal \<Rightarrow> xreal \<Rightarrow> bool" where
  "less_eq_xreal NInf y = True"
| "less_eq_xreal (Finite a) NInf = False"
| "less_eq_xreal (Finite a) (Finite b) = (a \<le> b)"
| "less_eq_xreal (Finite a) PInf = True"
| "less_eq_xreal PInf PInf = True"
| "less_eq_xreal PInf y = False"

definition less_xreal :: "xreal \<Rightarrow> xreal \<Rightarrow> bool" where
  "less_xreal x y = (x \<le> y \<and> \<not> y \<le> x)"

instance
proof
  fix x y z :: xreal
  show "(x < y) = (x \<le> y \<and> \<not> y \<le> x)" by (simp add: less_xreal_def)
  show "x \<le> x" by (cases x) auto
  show "x \<le> y \<Longrightarrow> y \<le> z \<Longrightarrow> x \<le> z" by (cases x; cases y; cases z) auto
  show "x \<le> y \<Longrightarrow> y \<le> x \<Longrightarrow> x = y" by (cases x; cases y) auto
  show "x \<le> y \<or> y \<le> x" by (cases x; cases y) auto
qed

end

type_synonym cell = "xreal option"
type_synonym series = "cell list"

definition overflow_threshold :: real where
  "overflow_threshold = 2 ^ 1024 - 2 ^ 970"

definition round64 :: "real \<Rightarrow> xreal" where
  "round64 r =
     (if overflow_threshold \<le> r then PInf
      else if r \<le> - overflow_threshold then NInf
      else Finite r)"

text \<open>
  Addition, negation and multiplication as float64 has them: \<open>inf - inf\<close> and
  \<open>inf * 0\<close> are NaN, an infinite operand otherwise gives an infinite result, and two
  finite operands give the exact result unless it overflows.
\<close>

fun fadd :: "xreal \<Rightarrow> xreal \<Rightarrow> cell" where
  "fadd (Finite a) (Finite b) = Some (round64 (a + b))"
| "fadd PInf NInf = None"
| "fadd NInf PInf = None"
| "fadd PInf b = Some PInf"
| "fadd NInf b = Some NInf"
| "fadd (Finite a) b = Some b"

fun fneg :: "xreal \<Rightarrow> xreal" where
  "fneg (Finite a) = Finite (- a)"
| "fneg PInf = NInf"
| "fneg NInf = PInf"

definition fsub :: "xreal \<Rightarrow> xreal \<Rightarrow> cell" where
  "fsub a b = fadd a (fneg b)"

fun inf_times :: "xreal \<Rightarrow> real \<Rightarrow> cell" where
  "inf_times i s = (if s = 0 then None else if 0 < s then Some i else Some (fneg i))"

fun fmul :: "xreal \<Rightarrow> xreal \<Rightarrow> cell" where
  "fmul (Finite a) (Finite b) = Some (round64 (a * b))"
| "fmul (Finite a) b = inf_times b a"
| "fmul a (Finite b) = inf_times a b"
| "fmul PInf b = Some b"
| "fmul NInf b = Some (fneg b)"

text \<open>The comparison \<^verbatim>\<open><=\<close> of two cells: false when either is NaN.\<close>

fun cell_le :: "cell \<Rightarrow> cell \<Rightarrow> bool" where
  "cell_le (Some a) (Some b) = (a \<le> b)"
| "cell_le a b = False"

section \<open>Tables, series and cells\<close>

datatype error = KeyError string | ValueError

record dataframe =
  index :: "nat list"
  columns :: "(string \<times> series) list"

definition bind_err :: "error + 'a \<Rightarrow> ('a \<Rightarrow> error + 'b) \<Rightarrow> error + 'b" where
  "bind_err m f = (case m of Inl e \<Rightarrow> Inl e | Inr v \<Rightarrow> f v)"

text \<open>\<^verbatim>\<open>df[c]\<close>: the column, or KeyError when there is none of that name.\<close>

definition getitem :: "dataframe \<Rightarrow> string \<Rightarrow> error + series" where
  "getitem df c = (case map_of (columns df) c of None \<Rightarrow> Inl (KeyError c) | Some s \<Rightarrow> Inr s)"

text \<open>
  \<^verbatim>\<open>df[c] = s\<close> for a series \<open>s\<close> taken from the same table (same index, so the
  alignment changes nothing): an existing column is replaced where it stands, a new one is
  appended.
\<close>

fun assign :: "string \<Rightarrow> series \<Rightarrow> (string \<times> series) list \<Rightarrow> (string \<times> series) list" where
  "assign c s [] = [(c, s)]"
| "assign c s ((k, v) # kvs) = (if k = c then (c, s) # kvs else (k, v) # assign c s kvs)"

definition setitem :: "dataframe \<Rightarrow> string \<Rightarrow> series \<Rightarrow> dataframe" where
  "setitem df c s = df\<lparr>columns := assign c s (columns df)\<rparr>"

text \<open>\<^verbatim>\<open>df[c] = v\<close> for a scalar \<open>v\<close>: the scalar in every row.\<close>

definition setitem_scalar :: "dataframe \<Rightarrow> string \<Rightarrow> cell \<Rightarrow> dataframe" where
  "setitem_scalar df c v = setitem df c (replicate (length (index df)) v)"

text \<open>
  \<^verbatim>\<open>df.loc[r, c] = v\<close>: a column that does not exist yet is created, missing in every
  row; then the cell of every row labelled \<open>r\<close> is set, and when no row has that label a
  new row is appended, missing everywhere but in column \<open>c\<close>.
\<close>

definition set_rows :: "nat list \<Rightarrow> nat \<Rightarrow> cell \<Rightarrow> series \<Rightarrow> series" where
  "set_rows idx r v s = map (\<lambda>(l, old). if l = r then v else old) (zip idx s)"

definition loc_setitem :: "dataframe \<Rightarrow> nat \<Rightarrow> string \<Rightarrow> cell \<Rightarrow> dataframe" where
  "loc_setitem df r c v =
     (let df1 = (if c \<in> set (map fst (columns df)) then df else setitem_scalar df c None)
      in if r \<in> set (index df1)
         then df1\<lparr>columns :=
                map (\<lambda>(k, s). if k = c then (k, set_rows (index df1) r v s) else (k, s))
                  (columns df1)\<rparr>
         else df1\<lparr>index := index df1 @ [r],
                  columns := map (\<lambda>(k, s). (k, s @ [if k = c then v else None])) (columns df1)\<rparr>)"

text \<open>Arithmetic on series is cell by cell; a missing operand gives a missing result.\<close>

fun cell_op :: "(xreal \<Rightarrow> xreal \<Rightarrow> cell) \<Rightarrow> cell \<Rightarrow> cell \<Rightarrow> cell" where
  "cell_op f (Some a) (Some b) = f a b"
| "cell_op f a b = None"

definition series_add :: "series \<Rightarrow> series \<Rightarrow> series" where
  "series_add s t = map (\<lambda>(a, b). cell_op fadd a b) (zip s t)"

definition series_mul :: "series \<Rightarrow> series \<Rightarrow> series" where
  "series_mul s t = map (\<lambda>(a, b). cell_op fmul a b) (zip s t)"

definition series_sub :: "series \<Rightarrow> series \<Rightarrow> series" where
  "series_sub s t = map (\<lambda>(a, b). cell_op fsub a b) (zip s t)"

section \<open>The quantile of a series\<close>

text \<open>
  Modelled from the spec: \<^verbatim>\<open>Series.quantile\<close> is a routine of the pandas library, which
  is not part of the repository; the scripts call it with the default (linear)
  interpolation. The spec gives its numeric semantics (section 4.1): sorted sample of size
  \<open>n\<close>, index \<open>p * (n - 1)\<close>, linear interpolation between the neighbouring order
  statistics, ties kept; an empty sample has no quantile. The definitions below arrange
  this the way the library computes it: the probability is checked first, missing cells
  are dropped, an empty remainder gives a missing result, and otherwise the value is
  interpolated between the order statistic at the floor of the index and its successor
  (clipped to the last position) with the fractional part of the index as weight.
  Between two finite order statistics the interpolation is the exact one of the spec.
  The spec says nothing of infinite values, which a series gets when line 61 overflows:
  there the interpolation \<open>a + (b - a) * t\<close> follows the rules of float64 for
  infinities, so that the quantile of a sample whose neighbouring order statistics are both
  \<open>+inf\<close> is NaN.
\<close>

fun dropna :: "series \<Rightarrow> xreal list" where
  "dropna [] = []"
| "dropna (None # s) = dropna s"
| "dropna (Some v # s) = v # dropna s"

fun lerp :: "xreal \<Rightarrow> xreal \<Rightarrow> real \<Rightarrow> cell" where
  "lerp (Finite a) (Finite b) t = Some (Finite (a + (b - a) * t))"
| "lerp a b t =
     Option.bind (fsub b a) (\<lambda>d. Option.bind (fmul d (Finite t)) (\<lambda>m. fadd a m))"

definition percentile :: "xreal list \<Rightarrow> real \<Rightarrow> cell" where
  "percentile vs q =
     (let arr = sort vs;
          n = length arr;
          virtual_index = q * real (n - 1);
          previous = nat \<lfloor>virtual_index\<rfloor>;
          following = min (previous + 1) (n - 1);
          gamma = virtual_index - real previous
      in lerp (arr ! previous) (arr ! following) gamma)"

definition nanpercentile :: "xreal list \<Rightarrow> real \<Rightarrow> cell" where
  "nanpercentile vs q = (if vs = [] then None else percentile vs q)"

definition quantile :: "series \<Rightarrow> real \<Rightarrow> error + cell" where
  "quantile s q =
     (if q < 0 \<or> 1 < q then Inl ValueError else Inr (nanpercentile (dropna s) q))"

section \<open>Objects and variables\<close>

text \<open>
  Tables are mutable objects: a variable holds a reference, and an assignment to a column
  or to a cell changes the object for everyone who holds it. The store maps references to
  tables; \<open>next_addr\<close> is the next free reference.
\<close>

type_synonym addr = nat

record store =
  heap :: "addr \<Rightarrow> dataframe"
  next_addr :: addr

definition alloc :: "dataframe \<Rightarrow> store \<Rightarrow> addr \<times> store" where
  "alloc df st =
     (next_addr st, st\<lparr>heap := (heap st)(next_addr st := df), next_addr := Suc (next_addr st)\<rparr>)"

text \<open>\<^verbatim>\<open>df.copy()\<close>: a new object with the contents of the old one.\<close>

definition copy :: "addr \<Rightarrow> store \<Rightarrow> addr \<times> store" where
  "copy a st = alloc (heap st a) st"

text \<open>\<^verbatim>\<open>pd.DataFrame(columns=cs, index=idx)\<close>: a new table, every cell missing.\<close>

definition DataFrame :: "string list \<Rightarrow> nat list \<Rightarrow> store \<Rightarrow> addr \<times> store" where
  "DataFrame cs idx st =
     alloc \<lparr>index = idx, columns = map (\<lambda>c. (c, replicate (length idx) None)) cs\<rparr> st"

definition update_at :: "addr \<Rightarrow> (dataframe \<Rightarrow> dataframe) \<Rightarrow> store \<Rightarrow> store" where
  "update_at a f st = st\<lparr>heap := (heap st)(a := f (heap st a))\<rparr>"

section \<open>The summary loop\<close>

text \<open>\<^verbatim>\<open>f"y_{x}"\<close>: the decimal digits of \<open>x\<close> after the prefix.\<close>

fun str_nat :: "nat \<Rightarrow> string" where
  "str_nat n =
     (if n < 10 then [''0123456789'' ! n] else str_nat (n div 10) @ [''0123456789'' ! (n mod 10)])"

declare str_nat.simps [simp del]

definition y_name :: "nat \<Rightarrow> string" where
  "y_name x = ''y_'' @ str_nat x"

text \<open>
  One pass of the loop body, for the tables referenced by \<open>pred_df_stan\<close> and
  \<open>summary_stan\<close>:
  \<^verbatim>\<open>
    pred_df_stan["x"] = x
    pred_df_stan[f"y_{x}"] = pred_df_stan["alpha"] + pred_df_stan["beta"] * pred_df_stan["x"]
    summary_stan.loc[x, f"y_025"] = pred_df_stan[f"y_{x}"].quantile(q=0.025)
    summary_stan.loc[x, f"y_500"] = pred_df_stan[f"y_{x}"].quantile(q=0.5)
    summary_stan.loc[x, f"y_975"] = pred_df_stan[f"y_{x}"].quantile(q=0.975)
  \<close>
\<close>

definition loop_body :: "addr \<Rightarrow> addr \<Rightarrow> nat \<Rightarrow> store \<Rightarrow> error + store" where
  "loop_body pred_df_stan summary_stan x st0 =
     (let st1 = update_at pred_df_stan (\<lambda>df. setitem_scalar df ''x'' (Some (Finite (real x)))) st0 in
      bind_err (getitem (heap st1 pred_df_stan) ''alpha'') (\<lambda>alpha.
      bind_err (getitem (heap st1 pred_df_stan) ''beta'') (\<lambda>beta.
      bind_err (getitem (heap st1 pred_df_stan) ''x'') (\<lambda>xs.
      let st2 = update_at pred_df_stan
                  (\<lambda>df. setitem df (y_name x) (series_add alpha (series_mul beta xs))) st1 in
      bind_err (getitem (heap st2 pred_df_stan) (y_name x)) (\<lambda>y.
      bind_err (quantile y 0.025) (\<lambda>q.
      let st3 = update_at summary_stan (\<lambda>df. loc_setitem df x ''y_025'' q) st2 in
      bind_err (getitem (heap st3 pred_df_stan) (y_name x)) (\<lambda>y.
      bind_err (quantile y 0.5) (\<lambda>q.
      let st4 = update_at summary_stan (\<lambda>df. loc_setitem df x ''y_500'' q) st3 in
      bind_err (getitem (heap st4 pred_df_stan) (y_name x)) (\<lambda>y.
      bind_err (quantile y 0.975) (\<lambda>q.
      Inr (update_at summary_stan (\<lambda>df. loc_setitem df x ''y_975'' q) st4)))))))))))"

text \<open>\<^verbatim>\<open>for x in xs: body\<close>; an exception ends the loop.\<close>

fun for_loop :: "(nat \<Rightarrow> store \<Rightarrow> error + store) \<Rightarrow> nat list \<Rightarrow> store \<Rightarrow> error + store" where
  "for_loop body [] st = Inr st"
| "for_loop body (x # xs) st = bind_err (body x st) (for_loop body xs)"

text \<open>
  The statements of the scripts from the copy of the draw table to the two derived
  columns (lines 57 to 68 of the first script, 64 to 77 of the second); \<open>stan_results\<close>
  is the reference of the draw table. The result gives the references bound to
  \<^verbatim>\<open>pred_df_stan\<close> and \<^verbatim>\<open>summary_stan\<close> and the final store.
  \<^verbatim>\<open>
    pred_df_stan = stan_results.copy()
    summary_stan = pd.DataFrame(columns=["y_025", "y_50", "y_975"], index=range(0, 6))
    for x in range(0, 6): ...
    summary_stan["ci_lower_diff"] = summary_stan["y_025"] - summary_stan["y_500"]
    summary_stan["ci_upper_diff"] = summary_stan["y_500"] - summary_stan["y_975"]
  \<close>
\<close>

definition script :: "addr \<Rightarrow> store \<Rightarrow> error + (addr \<times> addr \<times> store)" where
  "script stan_results st0 =
     (let (pred_df_stan, st1) = copy stan_results st0;
          (summary_stan, st2) = DataFrame [''y_025'', ''y_50'', ''y_975''] [0..<6] st1 in
      bind_err (for_loop (loop_body pred_df_stan summary_stan) [0..<6] st2) (\<lambda>st3.
      bind_err (getitem (heap st3 summary_stan) ''y_025'') (\<lambda>lo.
      bind_err (getitem (heap st3 summary_stan) ''y_500'') (\<lambda>mid.
      let st4 = update_at summary_stan (\<lambda>df. setitem df ''ci_lower_diff'' (series_sub lo mid)) st3 in
      bind_err (getitem (heap st4 summary_stan) ''y_500'') (\<lambda>mid.
      bind_err (getitem (heap st4 summary_stan) ''y_975'') (\<lambda>hi.
      let st5 = update_at summary_stan (\<lambda>df. setitem df ''ci_upper_diff'' (series_sub mid hi)) st4 in
      Inr (pred_df_stan, summary_stan, st5)))))))"

text \<open>The table bound to \<^verbatim>\<open>summary_stan\<close> when the statements have run.\<close>

definition summary_of :: "error + (addr \<times> addr \<times> store) \<Rightarrow> error + dataframe" where
  "summary_of r = map_sum id (\<lambda>(p, s, st). heap st s) r"

section \<open>The loop on the two tables alone\<close>

text \<open>
  The loop touches two objects only. The definitions of this section restate its effect
  on the pair of their contents (the copy of the draw table, the summary table); the
  lemmas \<open>loop_body_val\<close>, \<open>for_loop_val\<close> and \<open>script_val_eq\<close> below prove that
  the statements on the store compute exactly this, and every theorem about \<open>script\<close>
  is derived through them.
\<close>

definition body_val :: "nat \<Rightarrow> dataframe \<times> dataframe \<Rightarrow> error + dataframe \<times> dataframe" where
  "body_val x PS =
     (let P1 = setitem_scalar (fst PS) ''x'' (Some (Finite (real x))) in
      bind_err (getitem P1 ''alpha'') (\<lambda>alpha.
      bind_err (getitem P1 ''beta'') (\<lambda>beta.
      bind_err (getitem P1 ''x'') (\<lambda>xs.
      let P2 = setitem P1 (y_name x) (series_add alpha (series_mul beta xs)) in
      bind_err (getitem P2 (y_name x)) (\<lambda>y.
      bind_err (quantile y 0.025) (\<lambda>q1.
      bind_err (quantile y 0.5) (\<lambda>q2.
      bind_err (quantile y 0.975) (\<lambda>q3.
      Inr (P2, loc_setitem (loc_setitem (loc_setitem (snd PS) x ''y_025'' q1) x ''y_500'' q2)
                 x ''y_975'' q3)))))))))"

fun loop_val :: "nat list \<Rightarrow> dataframe \<times> dataframe \<Rightarrow> error + dataframe \<times> dataframe" where
  "loop_val [] PS = Inr PS"
| "loop_val (x # xs) PS = bind_err (body_val x PS) (loop_val xs)"

definition new_summary :: dataframe where
  "new_summary =
     \<lparr>index = [0..<6],
      columns = map (\<lambda>c. (c, replicate (length [0..<6::nat]) None)) [''y_025'', ''y_50'', ''y_975'']\<rparr>"

definition diff_columns :: "dataframe \<Rightarrow> error + dataframe" where
  "diff_columns S =
     bind_err (getitem S ''y_025'') (\<lambda>lo.
     bind_err (getitem S ''y_500'') (\<lambda>mid.
     let S1 = setitem S ''ci_lower_diff'' (series_sub lo mid) in
     bind_err (getitem S1 ''y_500'') (\<lambda>mid.
     bind_err (getitem S1 ''y_975'') (\<lambda>hi.
     Inr (setitem S1 ''ci_upper_diff'' (series_sub mid hi))))))"

definition script_val :: "dataframe \<Rightarrow> error + dataframe \<times> dataframe" where
  "script_val df =
     bind_err (loop_val [0..<6] (df, new_summary)) (\<lambda>PS.
     bind_err (diff_columns (snd PS)) (\<lambda>S. Inr (fst PS, S)))"

definition put2 :: "addr \<Rightarrow> addr \<Rightarrow> store \<Rightarrow> dataframe \<times> dataframe \<Rightarrow> store" where
  "put2 p s st PS = st\<lparr>heap := (heap st)(p := fst PS, s := snd PS)\<rparr>"

definition finish :: "store \<Rightarrow> dataframe \<times> dataframe \<Rightarrow> addr \<times> addr \<times> store" where
  "finish st PS =
     (next_addr st, Suc (next_addr st),
      st\<lparr>heap := (heap st)(next_addr st := fst PS, Suc (next_addr st) := snd PS),
         next_addr := Suc (Suc (next_addr st))\<rparr>)"

section \<open>Vocabulary of the statements proved\<close>

text \<open>
  The draw table has the columns \<^verbatim>\<open>alpha\<close> (intercept) and \<^verbatim>\<open>beta\<close> (slope),
  whatever their cells.
\<close>

definition has_columns :: "dataframe \<Rightarrow> series \<Rightarrow> series \<Rightarrow> bool" where
  "has_columns df as bs \<longleftrightarrow> getitem df ''alpha'' = Inr as \<and> getitem df ''beta'' = Inr bs"

text \<open>
  The draw table holds the finite draws \<open>(avs ! i, bvs ! i)\<close>: the two columns exist,
  have one cell per row, and every cell is a finite number. Other columns
  (\<^verbatim>\<open>sigma\<close>, \<^verbatim>\<open>lp__\<close>) are not constrained.
\<close>

definition holds_draws :: "dataframe \<Rightarrow> real list \<Rightarrow> real list \<Rightarrow> bool" where
  "holds_draws df avs bvs \<longleftrightarrow>
     getitem df ''alpha'' = Inr (map (\<lambda>a. Some (Finite a)) avs) \<and>
     getitem df ''beta'' = Inr (map (\<lambda>b. Some (Finite b)) bvs) \<and>
     length avs = length (index df) \<and> length bvs = length (index df)"

text \<open>
  The series that line 61 computes at query point \<open>x\<close> from the columns \<open>as\<close> and
  \<open>bs\<close> of a table of \<open>n\<close> rows.
\<close>

definition predicted_series :: "series \<Rightarrow> series \<Rightarrow> nat \<Rightarrow> nat \<Rightarrow> series" where
  "predicted_series as bs n x =
     series_add as (series_mul bs (replicate n (Some (Finite (real x)))))"

text \<open>
  The spec's predictive sample of a finite draw at a query point, \<open>intercept + slope * x\<close>,
  as float64 forms it: the product, then the sum, each infinite when it overflows.
\<close>

definition predictive_sample :: "real \<Rightarrow> real \<Rightarrow> nat \<Rightarrow> xreal" where
  "predictive_sample a b x =
     (case round64 (b * real x) of
        Finite m \<Rightarrow> round64 (a + m)
      | NInf \<Rightarrow> NInf
      | PInf \<Rightarrow> PInf)"

definition predictive :: "real list \<Rightarrow> real list \<Rightarrow> nat \<Rightarrow> xreal list" where
  "predictive avs bvs x = map (\<lambda>(a, b). predictive_sample a b x) (zip avs bvs)"

text \<open>
  Draws of magnitude at most \<open>2^1020\<close> (about 1.1e307): for them neither line 61 nor a
  difference of two predictive samples overflows.
\<close>

definition draw_bound :: real where
  "draw_bound = 2 ^ 1020"

definition bounded_draws :: "real list \<Rightarrow> bool" where
  "bounded_draws vs = list_all (\<lambda>v. \<bar>v\<bar> \<le> draw_bound) vs"

text \<open>
  The quantile in the words of the spec (section 4.1, numeric semantics): sort the sample,
  take the index \<open>p * (n - 1)\<close>; at an integer index the quantile is that order statistic,
  between two integers it is interpolated linearly between the two neighbouring order
  statistics. Sorting keeps equal values.
\<close>

definition spec_quantile :: "real list \<Rightarrow> real \<Rightarrow> real" where
  "spec_quantile vs p =
     (let ys = sort vs;
          n = length ys;
          idx = p * real (n - 1)
      in if idx = of_int \<lfloor>idx\<rfloor> then ys ! nat \<lfloor>idx\<rfloor>
         else ys ! nat \<lfloor>idx\<rfloor> +
              (idx - of_int \<lfloor>idx\<rfloor>) * (ys ! nat \<lceil>idx\<rceil> - ys ! nat \<lfloor>idx\<rfloor>))"

text \<open>The interpolation of \<open>percentile\<close> on a sorted list of finite values.\<close>

definition interp :: "real list \<Rightarrow> real \<Rightarrow> real" where
  "interp ys t =
     ys ! nat \<lfloor>t\<rfloor> +
     (ys ! min (nat \<lfloor>t\<rfloor> + 1) (length ys - 1) - ys ! nat \<lfloor>t\<rfloor>) * (t - real (nat \<lfloor>t\<rfloor>))"

text \<open>One pass of the loop on the summary table, with the three quantiles given.\<close>

definition fill_row ::
  "(nat \<Rightarrow> cell) \<Rightarrow> (nat \<Rightarrow> cell) \<Rightarrow> (nat \<Rightarrow> cell) \<Rightarrow> dataframe \<Rightarrow> nat \<Rightarrow> dataframe" where
  "fill_row q1 q2 q3 S x =
     loc_setitem (loc_setitem (loc_setitem S x ''y_025'' (q1 x)) x ''y_500'' (q2 x)) x ''y_975'' (q3 x)"

text \<open>
  The summary table in its final state, when the quantiles at query point \<open>x\<close> are
  \<open>q1 x\<close>, \<open>q2 x\<close> and \<open>q3 x\<close>.
\<close>

definition filled_summary :: "(nat \<Rightarrow> cell) \<Rightarrow> (nat \<Rightarrow> cell) \<Rightarrow> (nat \<Rightarrow> cell) \<Rightarrow> dataframe" where
  "filled_summary q1 q2 q3 =
     \<lparr>index = [0..<6],
      columns = [(''y_025'', map q1 [0..<6]),
                 (''y_50'', replicate 6 None),
                 (''y_975'', map q3 [0..<6]),
                 (''y_500'', map q2 [0..<6]),
                 (''ci_lower_diff'', series_sub (map q1 [0..<6]) (map q2 [0..<6])),
                 (''ci_upper_diff'', series_sub (map q2 [0..<6]) (map q3 [0..<6]))]\<rparr>"

text \<open>
  A store for the examples: the given draw table is the object at reference 0. The tables
  are the spec's scenario of three draws (intercepts 0, 2, 4, slope 1; the noise scale is
  not given there and set to 1), a table without rows, a single draw with intercept 3 and
  slope 2, and a single draw with intercept and slope 1e308, for which line 61 overflows
  at every query point but 0.
\<close>

definition store_of :: "dataframe \<Rightarrow> store" where
  "store_of df = \<lparr>heap = (\<lambda>a. \<lparr>index = [], columns = []\<rparr>)(0 := df), next_addr = 1\<rparr>"

definition scenario_draws :: dataframe where
  "scenario_draws =
     \<lparr>index = [0, 1, 2],
      columns = [(''alpha'', [Some (Finite 0), Some (Finite 2), Some (Finite 4)]),
                 (''beta'', [Some (Finite 1), Some (Finite 1), Some (Finite 1)]),
                 (''sigma'', [Some (Finite 1), Some (Finite 1), Some (Finite 1)])]\<rparr>"

definition empty_draws :: dataframe where
  "empty_draws = \<lparr>index = [], columns = [(''alpha'', []), (''beta'', []), (''sigma'', [])]\<rparr>"

definition single_draw :: dataframe where
  "single_draw =
     \<lparr>index = [0],
      columns = [(''alpha'', [Some (Finite 3)]), (''beta'', [Some (Finite 2)]),
                 (''sigma'', [Some (Finite 1)])]\<rparr>"

definition huge :: real where
  "huge = 10 ^ 308"

definition overflow_draw :: dataframe where
  "overflow_draw =
     \<lparr>index = [0],
      columns = [(''alpha'', [Some (Finite huge)]), (''beta'', [Some (Finite huge)]),
                 (''sigma'', [Some (Finite 1)])]\<rparr>"

text \<open>
  Reading the result. \<^verbatim>\<open>df.loc[r, c]\<close> as a value: the cell of the row labelled \<open>r\<close>
  in column \<open>c\<close>. The spec's summary row at a query point is the triple (lower, median,
  upper) of the cells the loop writes for it.
\<close>

definition loc_getitem :: "dataframe \<Rightarrow> nat \<Rightarrow> string \<Rightarrow> error + cell" where
  "loc_getitem df r c =
     bind_err (getitem df c) (\<lambda>s.
       case map_of (zip (index df) s) r of
         None \<Rightarrow> Inl (KeyError (str_nat r))
       | Some v \<Rightarrow> Inr v)"

definition summary_row :: "dataframe \<Rightarrow> nat \<Rightarrow> error + (cell \<times> cell \<times> cell)" where
  "summary_row df x =
     bind_err (loc_getitem df x ''y_025'') (\<lambda>lower.
     bind_err (loc_getitem df x ''y_500'') (\<lambda>median.
     bind_err (loc_getitem df x ''y_975'') (\<lambda>upper. Inr (lower, median, upper))))"

section \<open>The statements on the store and on the two tables agree\<close>

lemma bind_err_simps [simp]:
  "bind_err (Inl e) f = Inl e" "bind_err (Inr v) f = f v"
  by (simp_all add: bind_err_def)

lemma update_at_heap [simp]:
  "heap (update_at a f st) b = (if b = a then f (heap st a) else heap st b)"
  "next_addr (update_at a f st) = next_addr st"
  by (simp_all add: update_at_def)

lemma loop_body_val:
  assumes "p \<noteq> s"
  shows "loop_body p s x st = map_sum id (put2 p s st) (body_val x (heap st p, heap st s))"
  using assms
  unfolding loop_body_def body_val_def Let_def
  apply (simp split: sum.splits add: bind_err_def)
  apply (auto simp: put2_def update_at_def fun_eq_iff)
  done


lemma put2_heap [simp]:
  "p \<noteq> s \<Longrightarrow> heap (put2 p s st PS) p = fst PS"
  "heap (put2 p s st PS) s = snd PS"
  "a \<noteq> p \<Longrightarrow> a \<noteq> s \<Longrightarrow> heap (put2 p s st PS) a = heap st a"
  "next_addr (put2 p s st PS) = next_addr st"
  by (simp_all add: put2_def)

lemma put2_put2 [simp]: "put2 p s (put2 p s st PS) = put2 p s st"
  by (simp add: put2_def fun_eq_iff)

lemma for_loop_val:
  assumes "p \<noteq> s"
  shows "for_loop (loop_body p s) xs st =
         map_sum id (put2 p s st) (loop_val xs (heap st p, heap st s))"
proof (induction xs arbitrary: st)
  case Nil
  show ?case by (simp add: put2_def)
next
  case (Cons x xs)
  have step: "for_loop (loop_body p s) (x # xs) st =
              bind_err (map_sum id (put2 p s st) (body_val x (heap st p, heap st s)))
                (for_loop (loop_body p s) xs)"
    by (simp only: for_loop.simps loop_body_val [OF assms])
  show ?case
  proof (cases "body_val x (heap st p, heap st s)")
    case (Inl e)
    then show ?thesis unfolding step by simp
  next
    case (Inr PS)
    have "for_loop (loop_body p s) xs (put2 p s st PS) =
          map_sum id (put2 p s (put2 p s st PS)) (loop_val xs PS)"
      using Cons.IH [of "put2 p s st PS"] assms by (simp add: id_def)
    then show ?thesis unfolding step using Inr by (simp add: id_def)
  qed
qed

lemma script_val_eq:
  "script sr st = map_sum id (finish st) (script_val (heap st sr))"
proof -
  let ?n = "next_addr st"
  let ?st2 = "st\<lparr>heap := (heap st)(?n := heap st sr, Suc ?n := new_summary), next_addr := Suc (Suc ?n)\<rparr>"
  have ne: "?n \<noteq> Suc ?n" by simp
  have h2: "heap ?st2 ?n = heap st sr" "heap ?st2 (Suc ?n) = new_summary" by simp_all
  have loop: "for_loop (loop_body ?n (Suc ?n)) [0..<6] ?st2 =
              map_sum id (put2 ?n (Suc ?n) ?st2) (loop_val [0..<6] (heap st sr, new_summary))"
    using for_loop_val [OF ne, of "[0..<6]" ?st2] by (simp only: h2)
  have unf: "script sr st =
      bind_err (for_loop (loop_body ?n (Suc ?n)) [0..<6] ?st2) (\<lambda>st3.
      bind_err (getitem (heap st3 (Suc ?n)) ''y_025'') (\<lambda>lo.
      bind_err (getitem (heap st3 (Suc ?n)) ''y_500'') (\<lambda>mid.
      let st4 = update_at (Suc ?n) (\<lambda>df. setitem df ''ci_lower_diff'' (series_sub lo mid)) st3 in
      bind_err (getitem (heap st4 (Suc ?n)) ''y_500'') (\<lambda>mid.
      bind_err (getitem (heap st4 (Suc ?n)) ''y_975'') (\<lambda>hi.
      let st5 = update_at (Suc ?n) (\<lambda>df. setitem df ''ci_upper_diff'' (series_sub mid hi)) st4 in
      Inr (?n, Suc ?n, st5))))))"
    by (simp add: script_def copy_def DataFrame_def alloc_def new_summary_def)
  show ?thesis
    unfolding unf loop script_val_def
    by (cases "loop_val [0..<6] (heap st sr, new_summary)")
       (auto simp: diff_columns_def Let_def finish_def put2_def update_at_def fun_eq_iff
             bind_err_def split: sum.splits)
qed

section \<open>What the statements compute\<close>

lemma map_of_assign: "map_of (assign c s kvs) k = (if k = c then Some s else map_of kvs k)"
  by (induction kvs) auto

lemma getitem_setitem:
  "getitem (setitem df c s) k = (if k = c then Inr s else getitem df k)"
  by (simp add: getitem_def setitem_def map_of_assign)

lemma index_setitem [simp]: "index (setitem df c s) = index df"
  by (simp add: setitem_def)

lemma dropna_Some [simp]: "dropna (map Some vs) = vs"
  by (induction vs) auto

lemma quantile_in_range:
  "0 \<le> q \<Longrightarrow> q \<le> 1 \<Longrightarrow> quantile s q = Inr (nanpercentile (dropna s) q)"
  by (simp add: quantile_def)

lemma y_name_neq [simp]:
  "y_name x \<noteq> ''alpha''" "y_name x \<noteq> ''beta''" "y_name x \<noteq> ''x''"
  "''alpha'' \<noteq> y_name x" "''beta'' \<noteq> y_name x"
  by (simp_all add: y_name_def)

lemma body_val_columns:
  assumes "has_columns P as bs"
  shows "\<exists>P'. body_val x (P, S) =
           Inr (P', fill_row
                      (\<lambda>x. nanpercentile (dropna (predicted_series as bs (length (index P)) x)) 0.025)
                      (\<lambda>x. nanpercentile (dropna (predicted_series as bs (length (index P)) x)) 0.5)
                      (\<lambda>x. nanpercentile (dropna (predicted_series as bs (length (index P)) x)) 0.975)
                      S x) \<and>
           has_columns P' as bs \<and> index P' = index P"
proof -
  let ?P1 = "setitem_scalar P ''x'' (Some (Finite (real x)))"
  let ?y = "predicted_series as bs (length (index P)) x"
  let ?P2 = "setitem ?P1 (y_name x) ?y"
  from assms have a: "getitem ?P1 ''alpha'' = Inr as"
    and b: "getitem ?P1 ''beta'' = Inr bs"
    and xs: "getitem ?P1 ''x'' = Inr (replicate (length (index P)) (Some (Finite (real x))))"
    by (simp_all add: has_columns_def setitem_scalar_def getitem_setitem)
  have inv: "has_columns ?P2 as bs"
    using assms by (simp add: has_columns_def getitem_setitem setitem_scalar_def)
  have idx: "index ?P2 = index P" by (simp add: setitem_scalar_def)
  have "body_val x (P, S) =
        Inr (?P2, fill_row (\<lambda>x. nanpercentile (dropna (predicted_series as bs (length (index P)) x)) 0.025)
                      (\<lambda>x. nanpercentile (dropna (predicted_series as bs (length (index P)) x)) 0.5)
                      (\<lambda>x. nanpercentile (dropna (predicted_series as bs (length (index P)) x)) 0.975)
                      S x)"
    by (simp add: body_val_def Let_def a b xs getitem_setitem quantile_in_range fill_row_def
          predicted_series_def)
  with inv idx show ?thesis by blast
qed

lemma loop_val_columns:
  assumes "has_columns P as bs" and "length (index P) = n"
  shows "\<exists>P'. loop_val xs (P, S) =
           Inr (P', foldl (fill_row
                      (\<lambda>x. nanpercentile (dropna (predicted_series as bs n x)) 0.025)
                      (\<lambda>x. nanpercentile (dropna (predicted_series as bs n x)) 0.5)
                      (\<lambda>x. nanpercentile (dropna (predicted_series as bs n x)) 0.975)) S xs)"
  using assms
proof (induction xs arbitrary: P S)
  case Nil
  then show ?case by simp
next
  case (Cons x xs)
  from body_val_columns [OF Cons.prems(1), of x S] Cons.prems(2) obtain P1 where
    b: "body_val x (P, S) =
           Inr (P1, fill_row (\<lambda>x. nanpercentile (dropna (predicted_series as bs n x)) 0.025)
                      (\<lambda>x. nanpercentile (dropna (predicted_series as bs n x)) 0.5)
                      (\<lambda>x. nanpercentile (dropna (predicted_series as bs n x)) 0.975) S x)"
    and h: "has_columns P1 as bs" and i: "length (index P1) = n" by auto
  from Cons.IH [OF h i] show ?case by (simp add: b)
qed

lemma upt_0_6: "[0..<6] = [0, 1, 2, 3, 4, 5::nat]"
  by (simp add: upt_rec)

lemma fill_new_summary:
  "foldl (fill_row q1 q2 q3) new_summary [0..<6] =
     \<lparr>index = [0..<6],
      columns = [(''y_025'', map q1 [0..<6]),
                 (''y_50'', replicate 6 None),
                 (''y_975'', map q3 [0..<6]),
                 (''y_500'', map q2 [0..<6])]\<rparr>"
  unfolding upt_0_6 new_summary_def
  by (simp add: fill_row_def loc_setitem_def setitem_scalar_def setitem_def set_rows_def Let_def
        numeral_eq_Suc)

lemma diff_columns_filled:
  "diff_columns \<lparr>index = [0..<6],
      columns = [(''y_025'', map q1 [0..<6]),
                 (''y_50'', replicate 6 None),
                 (''y_975'', map q3 [0..<6]),
                 (''y_500'', map q2 [0..<6])]\<rparr> = Inr (filled_summary q1 q2 q3)"
  by (simp add: diff_columns_def getitem_def setitem_def filled_summary_def Let_def)

lemma finish_parts:
  "finish st PS = (p, s, st') \<Longrightarrow>
     p = next_addr st \<and> s = Suc (next_addr st) \<and> heap st' s = snd PS \<and>
     (\<forall>a. a < next_addr st \<longrightarrow> heap st' a = heap st a)"
  by (auto simp: finish_def)

lemma script_columns:
  assumes "has_columns (heap st sr) as bs"
  shows "\<exists>p s st'. script sr st = Inr (p, s, st') \<and>
           heap st' s =
             filled_summary
               (\<lambda>x. nanpercentile (dropna (predicted_series as bs (length (index (heap st sr))) x)) 0.025)
               (\<lambda>x. nanpercentile (dropna (predicted_series as bs (length (index (heap st sr))) x)) 0.5)
               (\<lambda>x. nanpercentile (dropna (predicted_series as bs (length (index (heap st sr))) x)) 0.975)"
proof -
  let ?n = "length (index (heap st sr))"
  let ?q1 = "\<lambda>x. nanpercentile (dropna (predicted_series as bs ?n x)) 0.025"
  let ?q2 = "\<lambda>x. nanpercentile (dropna (predicted_series as bs ?n x)) 0.5"
  let ?q3 = "\<lambda>x. nanpercentile (dropna (predicted_series as bs ?n x)) 0.975"
  from loop_val_columns [OF assms refl, of "[0..<6]" new_summary] obtain P' where
    l: "loop_val [0..<6] (heap st sr, new_summary) =
          Inr (P', foldl (fill_row ?q1 ?q2 ?q3) new_summary [0..<6])"
    by blast
  have v: "script_val (heap st sr) = Inr (P', filled_summary ?q1 ?q2 ?q3)"
    unfolding script_val_def l fill_new_summary by (simp add: diff_columns_filled)
  obtain p s st' where f: "finish st (P', filled_summary ?q1 ?q2 ?q3) = (p, s, st')"
    by (cases "finish st (P', filled_summary ?q1 ?q2 ?q3)") auto
  have "script sr st = Inr (p, s, st')" by (simp only: script_val_eq v f map_sum.simps)
  moreover have "heap st' s = filled_summary ?q1 ?q2 ?q3" using finish_parts [OF f] by auto
  ultimately show ?thesis by blast
qed

lemma fadd_round64:
  "fadd (Finite a) (round64 m) = Some (case round64 m of Finite v \<Rightarrow> round64 (a + v) | NInf \<Rightarrow> NInf | PInf \<Rightarrow> PInf)"
  by (cases "round64 m") simp_all

lemma predicted_series_finite:
  assumes "length avs = n" "length bvs = n"
  shows "predicted_series (map (\<lambda>a. Some (Finite a)) avs) (map (\<lambda>b. Some (Finite b)) bvs) n x =
         map Some (predictive avs bvs x)"
proof -
  have "length avs = length bvs \<Longrightarrow>
        series_add (map (\<lambda>a. Some (Finite a)) avs)
          (series_mul (map (\<lambda>b. Some (Finite b)) bvs) (replicate (length bvs) (Some (Finite (real x))))) =
        map Some (map (\<lambda>(a, b). predictive_sample a b x) (zip avs bvs))"
    by (induction avs bvs rule: list_induct2)
       (simp_all add: series_add_def series_mul_def predictive_sample_def fadd_round64)
  with assms show ?thesis by (simp add: predicted_series_def predictive_def)
qed

lemma holds_draws_columns:
  "holds_draws df avs bvs \<Longrightarrow>
     has_columns df (map (\<lambda>a. Some (Finite a)) avs) (map (\<lambda>b. Some (Finite b)) bvs)"
  by (simp add: holds_draws_def has_columns_def)

lemma script_ok:
  assumes "holds_draws (heap st sr) avs bvs"
  shows "\<exists>p s st'. script sr st = Inr (p, s, st') \<and>
           heap st' s = filled_summary (\<lambda>x. nanpercentile (predictive avs bvs x) 0.025)
                          (\<lambda>x. nanpercentile (predictive avs bvs x) 0.5)
                          (\<lambda>x. nanpercentile (predictive avs bvs x) 0.975)"
proof -
  have len: "length avs = length (index (heap st sr))" "length bvs = length (index (heap st sr))"
    using assms by (simp_all add: holds_draws_def)
  have d: "dropna (predicted_series (map (\<lambda>a. Some (Finite a)) avs) (map (\<lambda>b. Some (Finite b)) bvs)
             (length (index (heap st sr))) x) = predictive avs bvs x" for x
    by (simp add: predicted_series_finite [OF len])
  from script_columns [OF holds_draws_columns [OF assms]] show ?thesis unfolding d .
qed


section \<open>Range and quantile\<close>

lemma six_bounds_in_range: "6 * draw_bound < overflow_threshold"
  by (simp add: draw_bound_def overflow_threshold_def)

lemma round64_Finite: "\<bar>r\<bar> < overflow_threshold \<Longrightarrow> round64 r = Finite r"
  by (auto simp: round64_def)

lemma predictive_sample_bounded:
  assumes "\<bar>a\<bar> \<le> draw_bound" "\<bar>b\<bar> \<le> draw_bound" "x < 6"
  shows "predictive_sample a b x = Finite (a + b * real x)"
proof -
  have x: "real x \<le> 5" using assms(3) by simp
  have "\<bar>b * real x\<bar> = \<bar>b\<bar> * real x" by (simp add: abs_mult)
  also have "\<dots> \<le> draw_bound * 5"
    using assms(2) x by (intro mult_mono) (simp_all add: draw_bound_def)
  finally have m: "\<bar>b * real x\<bar> \<le> draw_bound * 5" .
  then have "\<bar>b * real x\<bar> < overflow_threshold" using six_bounds_in_range
    by (simp add: draw_bound_def)
  then have r1: "round64 (b * real x) = Finite (b * real x)" by (rule round64_Finite)
  have "\<bar>a + b * real x\<bar> \<le> \<bar>a\<bar> + \<bar>b * real x\<bar>" by (rule abs_triangle_ineq)
  also have "\<dots> \<le> 6 * draw_bound" using assms(1) m by simp
  finally have "\<bar>a + b * real x\<bar> < overflow_threshold" using six_bounds_in_range by simp
  then have r2: "round64 (a + b * real x) = Finite (a + b * real x)" by (rule round64_Finite)
  show ?thesis by (simp add: predictive_sample_def r1 r2)
qed

lemma predictive_bounded:
  assumes "bounded_draws avs" "bounded_draws bvs" "x < 6"
  shows "predictive avs bvs x = map Finite (map (\<lambda>(a, b). a + b * real x) (zip avs bvs))"
proof -
  have "predictive_sample a b x = Finite (a + b * real x)" if "(a, b) \<in> set (zip avs bvs)" for a b
  proof -
    from that have "a \<in> set avs" "b \<in> set bvs" by (auto dest: set_zip_leftD set_zip_rightD)
    with assms(1,2) have "\<bar>a\<bar> \<le> draw_bound" "\<bar>b\<bar> \<le> draw_bound"
      by (auto simp: bounded_draws_def list_all_iff)
    then show ?thesis using assms(3) by (rule predictive_sample_bounded)
  qed
  then show ?thesis by (auto simp: predictive_def)
qed

lemma insort_Finite: "insort (Finite x) (map Finite ys) = map Finite (insort x ys)"
  by (induction ys) auto

lemma sort_Finite: "sort (map Finite vs) = map Finite (sort vs)"
  by (induction vs) (simp_all add: insort_Finite)

lemma floor_index:
  assumes "0 \<le> t" "t \<le> real (n - 1)"
  shows "nat \<lfloor>t\<rfloor> \<le> n - 1" "real (nat \<lfloor>t\<rfloor>) \<le> t" "t < real (nat \<lfloor>t\<rfloor>) + 1"
proof -
  from assms(1) have nn: "0 \<le> \<lfloor>t\<rfloor>" by simp
  have "\<lfloor>t\<rfloor> \<le> int (n - 1)" using assms(2) by (simp add: floor_le_iff)
  then show "nat \<lfloor>t\<rfloor> \<le> n - 1" using nn by linarith
  show "real (nat \<lfloor>t\<rfloor>) \<le> t" using nn by (simp add: of_nat_nat)
  show "t < real (nat \<lfloor>t\<rfloor>) + 1" using nn by (simp add: of_nat_nat)
qed

lemma percentile_Finite:
  assumes "vs \<noteq> []" "0 \<le> q" "q \<le> 1"
  shows "percentile (map Finite vs) q = Some (Finite (interp (sort vs) (q * real (length vs - 1))))"
proof -
  define m where "m = length vs - 1"
  define t where "t = q * real m"
  have t0: "0 \<le> t" using assms(2) by (simp add: t_def)
  have "q * real m \<le> 1 * real m" using assms(3) by (intro mult_right_mono) simp_all
  then have tm: "t \<le> real m" by (simp add: t_def)
  have n: "length (sort vs) = Suc m" using assms(1) by (cases vs) (simp_all add: m_def)
  have i: "nat \<lfloor>t\<rfloor> < length (sort vs)"
    using floor_index(1) [of t "Suc m"] t0 tm n by simp
  have j: "min (nat \<lfloor>t\<rfloor> + 1) m < length (sort vs)" using n by simp
  have "percentile (map Finite vs) q =
        lerp (map Finite (sort vs) ! nat \<lfloor>t\<rfloor>) (map Finite (sort vs) ! min (nat \<lfloor>t\<rfloor> + 1) m)
          (t - real (nat \<lfloor>t\<rfloor>))"
    by (simp add: percentile_def Let_def sort_Finite m_def t_def)
  also have "\<dots> = Some (Finite (interp (sort vs) t))"
    using i j n by (simp add: interp_def)
  finally show ?thesis by (simp add: t_def m_def)
qed

lemma interp_bounds:
  assumes "sorted ys" "ys \<noteq> []" "0 \<le> t" "t \<le> real (length ys - 1)"
  shows "ys ! nat \<lfloor>t\<rfloor> \<le> interp ys t"
    and "interp ys t \<le> ys ! min (nat \<lfloor>t\<rfloor> + 1) (length ys - 1)"
proof -
  let ?i = "nat \<lfloor>t\<rfloor>" and ?j = "min (nat \<lfloor>t\<rfloor> + 1) (length ys - 1)"
  let ?g = "t - real ?i"
  have i: "?i \<le> length ys - 1" using floor_index(1) [OF assms(3,4)] .
  have g0: "0 \<le> ?g" using floor_index(2) [OF assms(3,4)] by simp
  have g1: "?g \<le> 1" using floor_index(3) [OF assms(3,4)] by linarith
  have ij: "?i \<le> ?j" using i by simp
  have j: "?j < length ys" using assms(2) by (simp add: min_def) (cases ys; simp)
  have le: "ys ! ?i \<le> ys ! ?j" using assms(1) ij j by (rule sorted_nth_mono)
  then have d: "0 \<le> ys ! ?j - ys ! ?i" by simp
  have "0 \<le> (ys ! ?j - ys ! ?i) * ?g" using d g0 by (rule mult_nonneg_nonneg)
  then show "ys ! ?i \<le> interp ys t" by (simp add: interp_def)
  have "(ys ! ?j - ys ! ?i) * ?g \<le> (ys ! ?j - ys ! ?i) * 1"
    using g1 d by (rule mult_left_mono)
  then show "interp ys t \<le> ys ! ?j" by (simp add: interp_def)
qed

lemma interp_mono:
  assumes srt: "sorted ys" and ne: "ys \<noteq> []"
    and s0: "0 \<le> s" and st: "s \<le> t" and tn: "t \<le> real (length ys - 1)"
  shows "interp ys s \<le> interp ys t"
proof -
  have t0: "0 \<le> t" and sn: "s \<le> real (length ys - 1)" using s0 st tn by simp_all
  let ?i = "nat \<lfloor>s\<rfloor>" and ?k = "nat \<lfloor>t\<rfloor>"
  have ik: "?i \<le> ?k" using st by (simp add: floor_mono nat_mono)
  have kn: "?k \<le> length ys - 1" using floor_index(1) [OF t0 tn] .
  show ?thesis
  proof (cases "?i = ?k")
    case True
    let ?j = "min (?i + 1) (length ys - 1)"
    have i: "?i \<le> length ys - 1" using kn True by simp
    have j: "?j < length ys" using ne by (simp add: min_def) (cases ys; simp)
    have "ys ! ?i \<le> ys ! ?j" using srt _ j by (rule sorted_nth_mono) (use i in simp)
    then have d: "0 \<le> ys ! ?j - ys ! ?i" by simp
    have "(ys ! ?j - ys ! ?i) * (s - real ?i) \<le> (ys ! ?j - ys ! ?i) * (t - real ?i)"
      using _ d by (rule mult_left_mono) (use st in simp)
    then show ?thesis using True by (simp add: interp_def)
  next
    case False
    with ik have lt: "?i + 1 \<le> ?k" by simp
    then have "min (?i + 1) (length ys - 1) = ?i + 1" using kn by simp
    then have "interp ys s \<le> ys ! (?i + 1)"
      using interp_bounds(2) [OF srt ne s0 sn] by simp
    also have "ys ! (?i + 1) \<le> ys ! ?k"
      using srt lt by (rule sorted_nth_mono) (use kn ne in \<open>cases ys; simp\<close>)
    also have "ys ! ?k \<le> interp ys t" using interp_bounds(1) [OF srt ne t0 tn] .
    finally show ?thesis .
  qed
qed

lemma quantile_mono:
  assumes "vs \<noteq> []" "0 \<le> p" "p \<le> q" "q \<le> 1"
  shows "interp (sort vs) (p * real (length vs - 1)) \<le> interp (sort vs) (q * real (length vs - 1))"
proof -
  let ?m = "real (length vs - 1)"
  have m: "0 \<le> ?m" by simp
  show ?thesis
  proof (rule interp_mono)
    show "sorted (sort vs)" by simp
    show "sort vs \<noteq> []" using assms(1) by (metis length_0_conv length_sort)
    show "0 \<le> p * ?m" using assms(2) m by (rule mult_nonneg_nonneg)
    show "p * ?m \<le> q * ?m" using assms(3) m by (rule mult_right_mono)
    have "q * ?m \<le> 1 * ?m" using assms(4) m by (rule mult_right_mono)
    then show "q * ?m \<le> real (length (sort vs) - 1)" by simp
  qed
qed

lemma interp_spec:
  assumes t0: "0 \<le> t" and tm: "t \<le> real m"
  shows "ys ! nat \<lfloor>t\<rfloor> + (ys ! min (nat \<lfloor>t\<rfloor> + 1) m - ys ! nat \<lfloor>t\<rfloor>) * (t - real (nat \<lfloor>t\<rfloor>)) =
         (if t = of_int \<lfloor>t\<rfloor> then ys ! nat \<lfloor>t\<rfloor>
          else ys ! nat \<lfloor>t\<rfloor> + (t - of_int \<lfloor>t\<rfloor>) * (ys ! nat \<lceil>t\<rceil> - ys ! nat \<lfloor>t\<rfloor>))"
proof -
  have fl: "real (nat \<lfloor>t\<rfloor>) = of_int \<lfloor>t\<rfloor>" using t0 by (simp add: of_nat_nat)
  show ?thesis
  proof (cases "t = of_int \<lfloor>t\<rfloor>")
    case True
    then have "t - real (nat \<lfloor>t\<rfloor>) = 0" using fl by simp
    then show ?thesis using True by simp
  next
    case False
    then have ceil: "\<lceil>t\<rceil> = \<lfloor>t\<rfloor> + 1" by (metis ceiling_altdef)
    have "t \<noteq> real m" using False by (metis floor_of_nat of_int_of_nat_eq)
    with tm have "t < real m" by simp
    then have "\<lfloor>t\<rfloor> < int m" by (metis floor_less_iff of_int_of_nat_eq)
    then have le: "nat \<lfloor>t\<rfloor> + 1 \<le> m" using t0 by linarith
    have "nat \<lceil>t\<rceil> = nat \<lfloor>t\<rfloor> + 1" using ceil t0 by (simp add: nat_add_distrib)
    with le have nx: "min (nat \<lfloor>t\<rfloor> + 1) m = nat \<lceil>t\<rceil>" by simp
    show ?thesis using False unfolding nx fl by (simp add: mult.commute)
  qed
qed

lemma interp_is_spec_quantile:
  assumes "0 \<le> p" "p \<le> 1"
  shows "interp (sort vs) (p * real (length vs - 1)) = spec_quantile vs p"
proof -
  define m where "m = length vs - 1"
  have t0: "0 \<le> p * real m" using assms(1) by simp
  have "p * real m \<le> 1 * real m" using assms(2) by (intro mult_right_mono) simp_all
  then have tm: "p * real m \<le> real m" by simp
  have "interp (sort vs) (p * real m) =
        sort vs ! nat \<lfloor>p * real m\<rfloor> +
        (sort vs ! min (nat \<lfloor>p * real m\<rfloor> + 1) m - sort vs ! nat \<lfloor>p * real m\<rfloor>) *
        (p * real m - real (nat \<lfloor>p * real m\<rfloor>))"
    by (simp add: interp_def m_def)
  also note interp_spec [OF t0 tm]
  finally show ?thesis by (simp add: spec_quantile_def Let_def m_def)
qed

lemma percentile_single: "percentile [Finite v] q = Some (Finite v)"
  by (simp add: percentile_def)

section \<open>The examples\<close>

lemma filled_summary_cols:
  "index (filled_summary q1 q2 q3) = [0..<6]"
  "map fst (columns (filled_summary q1 q2 q3)) =
     [''y_025'', ''y_50'', ''y_975'', ''y_500'', ''ci_lower_diff'', ''ci_upper_diff'']"
  "getitem (filled_summary q1 q2 q3) ''y_025'' = Inr (map q1 [0..<6])"
  "getitem (filled_summary q1 q2 q3) ''y_50'' = Inr (replicate 6 None)"
  "getitem (filled_summary q1 q2 q3) ''y_500'' = Inr (map q2 [0..<6])"
  "getitem (filled_summary q1 q2 q3) ''y_975'' = Inr (map q3 [0..<6])"
  "getitem (filled_summary q1 q2 q3) ''ci_lower_diff'' =
     Inr (series_sub (map q1 [0..<6]) (map q2 [0..<6]))"
  "getitem (filled_summary q1 q2 q3) ''ci_upper_diff'' =
     Inr (series_sub (map q2 [0..<6]) (map q3 [0..<6]))"
  by (simp_all add: filled_summary_def getitem_def)

lemma filled_summary_cong:
  assumes "\<And>x. x < 6 \<Longrightarrow> q1 x = r1 x" "\<And>x. x < 6 \<Longrightarrow> q2 x = r2 x" "\<And>x. x < 6 \<Longrightarrow> q3 x = r3 x"
  shows "filled_summary q1 q2 q3 = filled_summary r1 r2 r3"
proof -
  have e: "map q1 [0..<6] = map r1 [0..<6]" "map q2 [0..<6] = map r2 [0..<6]"
    "map q3 [0..<6] = map r3 [0..<6]"
    using assms by simp_all
  show ?thesis unfolding filled_summary_def e ..
qed

lemma bounded_small:
  "bounded_draws [0, 2, 4]" "bounded_draws [1, 1, 1]" "bounded_draws [3]" "bounded_draws [2]"
  by (simp_all add: bounded_draws_def draw_bound_def)

lemma holds_scenario: "holds_draws (heap (store_of scenario_draws) 0) [0, 2, 4] [1, 1, 1]"
  by (simp add: holds_draws_def store_of_def scenario_draws_def getitem_def)

lemma holds_empty: "holds_draws (heap (store_of empty_draws) 0) [] []"
  by (simp add: holds_draws_def store_of_def empty_draws_def getitem_def)

lemma holds_single: "holds_draws (heap (store_of single_draw) 0) [3] [2]"
  by (simp add: holds_draws_def store_of_def single_draw_def getitem_def)

lemma holds_overflow: "holds_draws (heap (store_of overflow_draw) 0) [huge] [huge]"
  by (simp add: holds_draws_def store_of_def overflow_draw_def getitem_def)

lemma predictive_nonempty:
  "avs \<noteq> [] \<Longrightarrow> length avs = length bvs \<Longrightarrow> predictive avs bvs x \<noteq> []"
  by (cases avs; cases bvs) (simp_all add: predictive_def)

lemma summary_of_ok:
  assumes "holds_draws (heap st sr) avs bvs"
  shows "summary_of (script sr st) =
           Inr (filled_summary (\<lambda>x. nanpercentile (predictive avs bvs x) 0.025)
                          (\<lambda>x. nanpercentile (predictive avs bvs x) 0.5)
                          (\<lambda>x. nanpercentile (predictive avs bvs x) 0.975))"
proof -
  from script_ok [OF assms] obtain p s st' where
    "script sr st = Inr (p, s, st')"
    "heap st' s = filled_summary (\<lambda>x. nanpercentile (predictive avs bvs x) 0.025)
                          (\<lambda>x. nanpercentile (predictive avs bvs x) 0.5)
                          (\<lambda>x. nanpercentile (predictive avs bvs x) 0.975)"
    by blast
  then show ?thesis by (simp only: summary_of_def map_sum.simps prod.case)
qed

lemma scenario_predictive:
  "x < 6 \<Longrightarrow> predictive [0, 2, 4] [1, 1, 1] x = [Finite (real x), Finite (2 + real x), Finite (4 + real x)]"
  by (simp add: predictive_bounded bounded_small)

lemma percentile3:
  assumes "a \<le> b" "b \<le> c"
  shows "nanpercentile [Finite a, Finite b, Finite c] (1 / 40) = Some (Finite (a + (b - a) / 20))"
    and "nanpercentile [Finite a, Finite b, Finite c] (1 / 2) = Some (Finite b)"
    and "nanpercentile [Finite a, Finite b, Finite c] (39 / 40) = Some (Finite (b + (c - b) * 19 / 20))"
  using assms by (simp_all add: nanpercentile_def percentile_def Let_def)

lemma scenario_summary:
  "summary_of (script 0 (store_of scenario_draws)) =
     Inr (filled_summary (\<lambda>x. Some (Finite (real x + 1 / 10))) (\<lambda>x. Some (Finite (real x + 2)))
            (\<lambda>x. Some (Finite (real x + 39 / 10))))"
proof -
  have q1: "nanpercentile (predictive [0, 2, 4] [1, 1, 1] x) 0.025 = Some (Finite (real x + 1 / 10))"
    if "x < 6" for x
    using percentile3(1) [of "real x" "2 + real x" "4 + real x"]
    by (simp add: scenario_predictive [OF that])
  have q2: "nanpercentile (predictive [0, 2, 4] [1, 1, 1] x) 0.5 = Some (Finite (real x + 2))"
    if "x < 6" for x
    using percentile3(2) [of "real x" "2 + real x" "4 + real x"]
    by (simp add: scenario_predictive [OF that] add.commute)
  have q3: "nanpercentile (predictive [0, 2, 4] [1, 1, 1] x) 0.975 = Some (Finite (real x + 39 / 10))"
    if "x < 6" for x
    using percentile3(3) [of "real x" "2 + real x" "4 + real x"]
    by (simp add: scenario_predictive [OF that])
  show ?thesis
    unfolding summary_of_ok [OF holds_scenario]
    by (simp only: sum.inject(2), rule filled_summary_cong) (rule q1 q2 q3; assumption)+
qed

lemma summary_row_filled:
  "x < 6 \<Longrightarrow> summary_row (filled_summary q1 q2 q3) x = Inr (q1 x, q2 x, q3 x)"
  unfolding upt_0_6 filled_summary_def summary_row_def loc_getitem_def getitem_def
  by (auto simp: less_Suc_eq numeral_eq_Suc)

lemma overflow_sample: "predictive_sample huge huge 1 = PInf"
proof -
  have c: "huge < overflow_threshold" "overflow_threshold \<le> huge + huge"
    by (simp_all add: huge_def overflow_threshold_def)
  have "round64 (huge * real 1) = Finite huge" using c by (simp add: round64_def)
  moreover have "round64 (huge + huge) = PInf" using c by (simp add: round64_def)
  ultimately show ?thesis by (simp add: predictive_sample_def)
qed

lemma percentile_PInf: "nanpercentile [PInf] q = None"
  by (simp add: nanpercentile_def percentile_def fsub_def)

lemma overflow_row:
  "bind_err (summary_of (script 0 (store_of overflow_draw))) (\<lambda>S. summary_row S 1) =
     Inr (None, None, None)"
proof -
  have p: "predictive [huge] [huge] 1 = [PInf]"
    by (simp add: predictive_def overflow_sample [simplified])
  have r: "summary_row (filled_summary q1 q2 q3) 1 = Inr (q1 1, q2 1, q3 1)" for q1 q2 q3
    by (rule summary_row_filled) simp
  show ?thesis
    unfolding summary_of_ok [OF holds_overflow] bind_err_simps r p percentile_PInf ..
qed

lemma has_columns_empty: "has_columns (heap (store_of empty_draws) 0) [] []"
  by (simp add: has_columns_def store_of_def empty_draws_def getitem_def)

lemma overflow_bounds:
  "bind_err (summary_of (script 0 (store_of overflow_draw))) (\<lambda>S. loc_getitem S 1 ''y_025'') = Inr None"
  "bind_err (summary_of (script 0 (store_of overflow_draw))) (\<lambda>S. loc_getitem S 1 ''y_975'') = Inr None"
proof -
  have p: "predictive [huge] [huge] 1 = [PInf]"
    by (simp add: predictive_def overflow_sample [simplified])
  have r: "loc_getitem (filled_summary q1 q2 q3) 1 ''y_025'' = Inr (q1 1)"
    "loc_getitem (filled_summary q1 q2 q3) 1 ''y_975'' = Inr (q3 1)" for q1 q2 q3
    unfolding upt_0_6 filled_summary_def loc_getitem_def getitem_def by simp_all
  show "bind_err (summary_of (script 0 (store_of overflow_draw))) (\<lambda>S. loc_getitem S 1 ''y_025'') = Inr None"
    unfolding summary_of_ok [OF holds_overflow] bind_err_simps r p percentile_PInf ..
  show "bind_err (summary_of (script 0 (store_of overflow_draw))) (\<lambda>S. loc_getitem S 1 ''y_975'') = Inr None"
    unfolding summary_of_ok [OF holds_overflow] bind_err_simps r p percentile_PInf ..
qed

text \<open>
  The only exception the statements can raise is the KeyError of a draw table without an
  \<^verbatim>\<open>alpha\<close> or a \<^verbatim>\<open>beta\<close> column: the probabilities passed to the quantile are in
  range, and every other column that is read has been written before.
\<close>

lemma getitem_Inl: "getitem df c = Inl e \<Longrightarrow> e = KeyError c \<and> c \<notin> fst ` set (columns df)"
  by (auto simp: getitem_def map_of_eq_None_iff split: option.splits)

lemma getitem_Inr_ex: "c \<in> fst ` set (columns df) \<Longrightarrow> \<exists>s. getitem df c = Inr s"
  by (cases "map_of (columns df) c") (auto simp: getitem_def map_of_eq_None_iff)

lemma names_assign:
  "map fst (assign c s kvs) =
     (if c \<in> set (map fst kvs) then map fst kvs else map fst kvs @ [c])"
  by (induction kvs) (force+)

lemma names_loc_setitem:
  "map fst (columns (loc_setitem df r c v)) =
     (if c \<in> set (map fst (columns df)) then map fst (columns df)
      else map fst (columns df) @ [c])"
proof -
  have keep: "map (fst \<circ> (\<lambda>(k, s). if k = c then (k, f s) else (k, s))) kvs = map fst kvs"
    for f :: "series \<Rightarrow> series" and kvs
    by (induction kvs) auto
  have keep': "map (fst \<circ> (\<lambda>(k, s). (k, g k s))) kvs = map fst kvs"
    for g :: "string \<Rightarrow> series \<Rightarrow> series" and kvs
    by (induction kvs) auto
  show ?thesis
    unfolding loc_setitem_def Let_def setitem_scalar_def setitem_def
    by (simp add: names_assign keep keep' [of "\<lambda>k s. s @ [if k = c then v else None]"])
qed

lemma names_loc_setitem_mem:
  "k \<in> fst ` set (columns (loc_setitem df r c v)) \<longleftrightarrow>
     k = c \<or> k \<in> fst ` set (columns df)"
proof -
  have "k \<in> set (map fst (columns (loc_setitem df r c v))) \<longleftrightarrow>
        k = c \<or> k \<in> set (map fst (columns df))"
    unfolding names_loc_setitem by auto
  then show ?thesis by simp
qed

lemma body_val_Inl:
  "body_val x PS = Inl e \<Longrightarrow> e = KeyError ''alpha'' \<or> e = KeyError ''beta''"
  by (auto simp: body_val_def Let_def getitem_setitem setitem_scalar_def quantile_def
        bind_err_def split: sum.splits dest: getitem_Inl)

lemma body_val_names:
  "body_val x PS = Inr PS' \<Longrightarrow>
     {''y_025'', ''y_500'', ''y_975''} \<subseteq> fst ` set (columns (snd PS'))"
  by (auto simp: body_val_def Let_def bind_err_def names_loc_setitem_mem split: sum.splits)

lemma loop_val_Inl:
  "loop_val xs PS = Inl e \<Longrightarrow> e = KeyError ''alpha'' \<or> e = KeyError ''beta''"
proof (induction xs arbitrary: PS)
  case Nil
  then show ?case by simp
next
  case (Cons x xs)
  then show ?case
    by (cases "body_val x PS") (auto dest: body_val_Inl)
qed

lemma loop_val_names:
  "loop_val xs PS = Inr PS' \<Longrightarrow> xs \<noteq> [] \<Longrightarrow>
     {''y_025'', ''y_500'', ''y_975''} \<subseteq> fst ` set (columns (snd PS'))"
proof (induction xs arbitrary: PS)
  case Nil
  then show ?case by simp
next
  case (Cons x xs)
  from Cons.prems(1) obtain PS1 where b: "body_val x PS = Inr PS1"
    and l: "loop_val xs PS1 = Inr PS'"
    by (cases "body_val x PS") auto
  show ?case
  proof (cases xs)
    case Nil
    with l have "PS' = PS1" by simp
    with body_val_names [OF b] show ?thesis by simp
  next
    case (Cons y ys)
    then have "xs \<noteq> []" by simp
    with Cons.IH [OF l] show ?thesis by simp
  qed
qed

lemma diff_columns_Inr:
  assumes "{''y_025'', ''y_500'', ''y_975''} \<subseteq> fst ` set (columns S)"
  shows "\<exists>S'. diff_columns S = Inr S'"
proof -
  from assms obtain lo mid hi where
    g: "getitem S ''y_025'' = Inr lo" "getitem S ''y_500'' = Inr mid" "getitem S ''y_975'' = Inr hi"
    using getitem_Inr_ex [of _ S] by (meson insert_subset)
  then show ?thesis
    by (simp add: diff_columns_def Let_def getitem_setitem)
qed

lemma script_error_is_missing_column:
  assumes "script sr st = Inl e"
  shows "e = KeyError ''alpha'' \<or> e = KeyError ''beta''"
proof (cases "loop_val [0..<6] (heap st sr, new_summary)")
  case (Inl e')
  with assms have "e = e'" by (simp add: script_val_eq script_val_def)
  with loop_val_Inl [OF Inl] show ?thesis by simp
next
  case (Inr PS)
  have "[0..<6::nat] \<noteq> []" by simp
  from diff_columns_Inr [OF loop_val_names [OF Inr this]] obtain S' where
    "diff_columns (snd PS) = Inr S'" by blast
  with Inr assms show ?thesis by (simp add: script_val_eq script_val_def)
qed


section \<open>The claims\<close>




text \<open>
  Claim C2, as the spec states it: for the draws (0, 1), (2, 1), (4, 1), query points 0
  and 1 and coverage 0.5, the row at \<open>x = 0\<close> is (1, 2, 3) and the row at \<open>x = 1\<close> is
  (2, 3, 4). The scripts have no coverage argument and no query-point argument: the
  probabilities 0.025, 0.5 and 0.975 and the range 0..5 are literals. On these draws the
  row at \<open>x = 0\<close> is therefore not (1, 2, 3).
\<close>

theorem scenario_rows_counterexample:
  "bind_err (summary_of (script 0 (store_of scenario_draws))) (\<lambda>S. summary_row S 0) \<noteq>
     Inr (Some (Finite 1), Some (Finite 2), Some (Finite 3))"
  by (simp add: scenario_summary summary_row_filled)

text \<open>
  Claim C2, amended: on these draws the scripts produce the row (0.1, 2, 3.9) at \<open>x = 0\<close>
  and the row (1.1, 3, 4.9) at \<open>x = 1\<close>, in a table of six rows labelled 0 to 5; the
  values the spec lists are the quantiles of the same predictive samples at the
  probabilities 0.25, 0.5 and 0.75.
\<close>

theorem scenario_rows:
  "bind_err (summary_of (script 0 (store_of scenario_draws))) (\<lambda>S. summary_row S 0) =
     Inr (Some (Finite (1 / 10)), Some (Finite 2), Some (Finite (39 / 10))) \<and>
   bind_err (summary_of (script 0 (store_of scenario_draws))) (\<lambda>S. summary_row S 1) =
     Inr (Some (Finite (11 / 10)), Some (Finite 3), Some (Finite (49 / 10))) \<and>
   map_sum id index (summary_of (script 0 (store_of scenario_draws))) = Inr [0, 1, 2, 3, 4, 5] \<and>
   quantile (map Some (predictive [0, 2, 4] [1, 1, 1] 0)) 0.25 = Inr (Some (Finite 1)) \<and>
   quantile (map Some (predictive [0, 2, 4] [1, 1, 1] 0)) 0.5 = Inr (Some (Finite 2)) \<and>
   quantile (map Some (predictive [0, 2, 4] [1, 1, 1] 0)) 0.75 = Inr (Some (Finite 3)) \<and>
   quantile (map Some (predictive [0, 2, 4] [1, 1, 1] 1)) 0.25 = Inr (Some (Finite 2)) \<and>
   quantile (map Some (predictive [0, 2, 4] [1, 1, 1] 1)) 0.5 = Inr (Some (Finite 3)) \<and>
   quantile (map Some (predictive [0, 2, 4] [1, 1, 1] 1)) 0.75 = Inr (Some (Finite 4))"
proof -
  have rows: "bind_err (summary_of (script 0 (store_of scenario_draws))) (\<lambda>S. summary_row S 0) =
     Inr (Some (Finite (1 / 10)), Some (Finite 2), Some (Finite (39 / 10)))"
    "bind_err (summary_of (script 0 (store_of scenario_draws))) (\<lambda>S. summary_row S 1) =
     Inr (Some (Finite (11 / 10)), Some (Finite 3), Some (Finite (49 / 10)))"
    by (simp_all add: scenario_summary summary_row_filled)
  have idx: "map_sum id index (summary_of (script 0 (store_of scenario_draws))) = Inr [0, 1, 2, 3, 4, 5]"
    by (simp add: scenario_summary filled_summary_cols upt_0_6)
  have p0: "predictive [0, 2, 4] [1, 1, 1] 0 = [Finite 0, Finite 2, Finite 4]"
    using scenario_predictive [of 0] by simp
  have p1: "predictive [0, 2, 4] [1, 1, 1] 1 = [Finite 1, Finite 3, Finite 5]"
    using scenario_predictive [of 1] by simp
  have q: "quantile (map Some (predictive [0, 2, 4] [1, 1, 1] 0)) 0.25 = Inr (Some (Finite 1))"
   "quantile (map Some (predictive [0, 2, 4] [1, 1, 1] 0)) 0.5 = Inr (Some (Finite 2))"
   "quantile (map Some (predictive [0, 2, 4] [1, 1, 1] 0)) 0.75 = Inr (Some (Finite 3))"
   "quantile (map Some (predictive [0, 2, 4] [1, 1, 1] 1)) 0.25 = Inr (Some (Finite 2))"
   "quantile (map Some (predictive [0, 2, 4] [1, 1, 1] 1)) 0.5 = Inr (Some (Finite 3))"
   "quantile (map Some (predictive [0, 2, 4] [1, 1, 1] 1)) 0.75 = Inr (Some (Finite 4))"
    unfolding p0 p1
    by (simp_all add: quantile_def nanpercentile_def percentile_def Let_def)
  from rows idx q show ?thesis by (intro conjI)
qed

text \<open>
  Claim C3. For every non-empty sample and every probability \<open>p\<close> between 0 and 1, the
  quantile the loop calls equals the linear-interpolation estimator in the words of the
  spec: sort the sample, take the index \<open>p * (n - 1)\<close>, and interpolate linearly between
  the two neighbouring order statistics when the index is not an integer. Equal values
  are kept: the witness takes the sample 1, 3, 1, whose median is 1 (it would be 2 had the
  tie been removed).
\<close>

theorem quantile_is_linear_interpolation:
  assumes "vs \<noteq> []" "0 \<le> p" "p \<le> 1"
  shows "quantile (map (\<lambda>v. Some (Finite v)) vs) p = Inr (Some (Finite (spec_quantile vs p)))"
proof -
  have "map (\<lambda>v. Some (Finite v)) vs = map Some (map Finite vs)" by simp
  then have "dropna (map (\<lambda>v. Some (Finite v)) vs) = map Finite vs"
    by (simp only: dropna_Some)
  then show ?thesis
    using assms percentile_Finite [OF assms] interp_is_spec_quantile [OF assms(2,3), of vs]
    by (simp add: quantile_def nanpercentile_def)
qed

theorem quantile_is_linear_interpolation_witness:
  "[1, 3, 1] \<noteq> ([] :: real list) \<and> (0 :: real) \<le> 1 / 2 \<and> (1 / 2 :: real) \<le> 1 \<and>
   quantile (map (\<lambda>v. Some (Finite v)) [1, 3, 1]) (1 / 2) =
     Inr (Some (Finite (spec_quantile [1, 3, 1] (1 / 2)))) \<and>
   spec_quantile [1, 3, 1] (1 / 2) = 1"
proof -
  have "spec_quantile [1, 3, 1] (1 / 2) = 1" by (simp add: spec_quantile_def Let_def)
  then show ?thesis
    using quantile_is_linear_interpolation [of "[1, 3, 1]" "1 / 2"] by simp
qed

text \<open>
  Claim C4, as the spec states it: for every finite non-empty draw set, every row
  satisfies \<open>lower \<le> median \<le> upper\<close>. The sum on line 61 is a float64 sum and can
  overflow: for the single draw with intercept and slope 1e308 the predictive sample at
  \<open>x = 1\<close> is \<open>+inf\<close>, its quantiles are NaN, and no comparison with NaN holds.
\<close>

theorem overflow_rows_counterexample:
  "bind_err (summary_of (script 0 (store_of overflow_draw))) (\<lambda>S. summary_row S 1) =
     Inr (None, None, None) \<and>
   \<not> cell_le None None"
  using overflow_row by simp

text \<open>
  Claim C4, amended: for every non-empty draw set whose intercepts and slopes have
  magnitude at most \<open>2^1020\<close> (about 1.1e307, which rules the overflow out), every row of
  the summary table satisfies \<open>lower \<le> median \<le> upper\<close>, and its three cells are
  finite numbers.
\<close>

theorem summary_rows_ordered:
  assumes "holds_draws (heap st stan_results) avs bvs" and "avs \<noteq> []"
    and "bounded_draws avs" and "bounded_draws bvs"
  shows "\<exists>pred_df_stan summary_stan st' lower median upper.
           script stan_results st = Inr (pred_df_stan, summary_stan, st') \<and>
           getitem (heap st' summary_stan) ''y_025'' = Inr (map (\<lambda>v. Some (Finite v)) lower) \<and>
           getitem (heap st' summary_stan) ''y_500'' = Inr (map (\<lambda>v. Some (Finite v)) median) \<and>
           getitem (heap st' summary_stan) ''y_975'' = Inr (map (\<lambda>v. Some (Finite v)) upper) \<and>
           length lower = 6 \<and> length median = 6 \<and> length upper = 6 \<and>
           (\<forall>x < 6. lower ! x \<le> median ! x \<and> median ! x \<le> upper ! x)"
proof -
  from script_ok [OF assms(1)] obtain p s st' where
    run: "script stan_results st = Inr (p, s, st')"
    and tab: "heap st' s = filled_summary (\<lambda>x. nanpercentile (predictive avs bvs x) 0.025)
                          (\<lambda>x. nanpercentile (predictive avs bvs x) 0.5)
                          (\<lambda>x. nanpercentile (predictive avs bvs x) 0.975)"
    by blast
  have len: "length avs = length bvs" using assms(1) by (simp add: holds_draws_def)
  define vs where "vs x = map (\<lambda>(a, b). a + b * real x) (zip avs bvs)" for x
  have ne: "vs x \<noteq> []" for x
    using assms(2) len by (cases avs; cases bvs) (simp_all add: vs_def)
  have fin: "predictive avs bvs x = map Finite (vs x)" if "x < 6" for x
    unfolding vs_def using assms(3,4) that by (rule predictive_bounded)
  define Q where "Q q x = interp (sort (vs x)) (q * real (length (vs x) - 1))" for q x
  have nq: "nanpercentile (predictive avs bvs x) q = Some (Finite (Q q x))"
    if "x < 6" "0 \<le> q" "q \<le> 1" for x q
    using percentile_Finite [OF ne that(2,3), of x] ne [of x]
    by (simp add: nanpercentile_def fin [OF that(1)] Q_def)
  have tab': "heap st' s = filled_summary (\<lambda>x. Some (Finite (Q 0.025 x)))
                (\<lambda>x. Some (Finite (Q 0.5 x))) (\<lambda>x. Some (Finite (Q 0.975 x)))"
    unfolding tab by (rule filled_summary_cong) (rule nq; simp)+
  let ?lo = "map (Q 0.025) [0..<6]"
  let ?mid = "map (Q 0.5) [0..<6]"
  let ?hi = "map (Q 0.975) [0..<6]"
  have cols: "getitem (heap st' s) ''y_025'' = Inr (map (\<lambda>v. Some (Finite v)) ?lo)"
    "getitem (heap st' s) ''y_500'' = Inr (map (\<lambda>v. Some (Finite v)) ?mid)"
    "getitem (heap st' s) ''y_975'' = Inr (map (\<lambda>v. Some (Finite v)) ?hi)"
    unfolding tab' filled_summary_cols by (simp_all add: comp_def)
  have ord: "?lo ! x \<le> ?mid ! x \<and> ?mid ! x \<le> ?hi ! x" if "x < 6" for x
  proof -
    have "Q 0.025 x \<le> Q 0.5 x" unfolding Q_def by (rule quantile_mono [OF ne]) simp_all
    moreover have "Q 0.5 x \<le> Q 0.975 x" unfolding Q_def by (rule quantile_mono [OF ne]) simp_all
    ultimately show ?thesis using that by simp
  qed
  have lens: "length ?lo = 6" "length ?mid = 6" "length ?hi = 6" by simp_all
  show ?thesis
    by (rule exI [of _ p], rule exI [of _ s], rule exI [of _ st'],
        rule exI [of _ ?lo], rule exI [of _ ?mid], rule exI [of _ ?hi])
       (use run cols lens ord in blast)
qed

theorem summary_rows_ordered_witness:
  "holds_draws (heap (store_of scenario_draws) 0) [0, 2, 4] [1, 1, 1] \<and>
   [0, 2, 4] \<noteq> ([] :: real list) \<and> bounded_draws [0, 2, 4] \<and> bounded_draws [1, 1, 1] \<and>
   (\<exists>pred_df_stan summary_stan st' lower median upper.
      script 0 (store_of scenario_draws) = Inr (pred_df_stan, summary_stan, st') \<and>
      getitem (heap st' summary_stan) ''y_025'' = Inr (map (\<lambda>v. Some (Finite v)) lower) \<and>
      getitem (heap st' summary_stan) ''y_500'' = Inr (map (\<lambda>v. Some (Finite v)) median) \<and>
      getitem (heap st' summary_stan) ''y_975'' = Inr (map (\<lambda>v. Some (Finite v)) upper) \<and>
      length lower = 6 \<and> length median = 6 \<and> length upper = 6 \<and>
      (\<forall>x < 6. lower ! x \<le> median ! x \<and> median ! x \<le> upper ! x))"
proof -
  have ne: "[0, 2, 4] \<noteq> ([] :: real list)" by simp
  from summary_rows_ordered [OF holds_scenario ne bounded_small(1,2)]
    holds_scenario ne bounded_small(1,2)
  show ?thesis by (intro conjI)
qed

text \<open>
  Claim C5, as the spec states it: an empty draw set, or a coverage outside the open
  interval (0, 1), is rejected with an error before anything is computed. The scripts
  validate nothing and have no coverage argument. With an empty draw table the statements
  run to the end and leave a table of six rows in which every cell is missing.
\<close>

theorem empty_draws_counterexample:
  "summary_of (script 0 (store_of empty_draws)) =
     Inr \<lparr>index = [0, 1, 2, 3, 4, 5],
          columns = [(''y_025'', [None, None, None, None, None, None]),
                     (''y_50'', [None, None, None, None, None, None]),
                     (''y_975'', [None, None, None, None, None, None]),
                     (''y_500'', [None, None, None, None, None, None]),
                     (''ci_lower_diff'', [None, None, None, None, None, None]),
                     (''ci_upper_diff'', [None, None, None, None, None, None])]\<rparr>"
  using summary_of_ok [OF holds_empty]
  by (simp add: filled_summary_def upt_0_6 predictive_def nanpercentile_def series_sub_def
        numeral_eq_Suc)

text \<open>
  Claim C5, amended: whenever the draw table has its \<^verbatim>\<open>alpha\<close> and \<^verbatim>\<open>beta\<close>
  columns, whatever their cells, the statements end without an error for every number of
  draws, zero included, and the summary table is complete: six rows, and six cells in each
  of the three quantile columns. With an empty draw set all of these cells are missing.
\<close>

theorem no_validation_full_table:
  assumes "has_columns (heap st stan_results) as bs"
  shows "\<exists>pred_df_stan summary_stan st' lower median upper.
           script stan_results st = Inr (pred_df_stan, summary_stan, st') \<and>
           index (heap st' summary_stan) = [0..<6] \<and>
           getitem (heap st' summary_stan) ''y_025'' = Inr lower \<and>
           getitem (heap st' summary_stan) ''y_500'' = Inr median \<and>
           getitem (heap st' summary_stan) ''y_975'' = Inr upper \<and>
           length lower = 6 \<and> length median = 6 \<and> length upper = 6 \<and>
           (as = [] \<longrightarrow>
              lower = replicate 6 None \<and> median = replicate 6 None \<and> upper = replicate 6 None)"
proof -
  let ?n = "length (index (heap st stan_results))"
  let ?q1 = "\<lambda>x. nanpercentile (dropna (predicted_series as bs ?n x)) 0.025"
  let ?q2 = "\<lambda>x. nanpercentile (dropna (predicted_series as bs ?n x)) 0.5"
  let ?q3 = "\<lambda>x. nanpercentile (dropna (predicted_series as bs ?n x)) 0.975"
  from script_columns [OF assms] obtain p s st' where
    run: "script stan_results st = Inr (p, s, st')"
    and tab: "heap st' s = filled_summary ?q1 ?q2 ?q3"
    by blast
  have idx: "index (heap st' s) = [0..<6]" unfolding tab by (rule filled_summary_cols)
  have cols: "getitem (heap st' s) ''y_025'' = Inr (map ?q1 [0..<6])"
    "getitem (heap st' s) ''y_500'' = Inr (map ?q2 [0..<6])"
    "getitem (heap st' s) ''y_975'' = Inr (map ?q3 [0..<6])"
    unfolding tab by (rule filled_summary_cols)+
  have lens: "length (map ?q1 [0..<6]) = 6" "length (map ?q2 [0..<6]) = 6"
    "length (map ?q3 [0..<6]) = 6" by simp_all
  have empty: "as = [] \<longrightarrow>
      map ?q1 [0..<6] = replicate 6 None \<and> map ?q2 [0..<6] = replicate 6 None \<and>
      map ?q3 [0..<6] = replicate 6 None"
  proof
    assume "as = []"
    then have "predicted_series as bs ?n x = []" for x
      by (simp add: predicted_series_def series_add_def)
    then show "map ?q1 [0..<6] = replicate 6 None \<and> map ?q2 [0..<6] = replicate 6 None \<and>
      map ?q3 [0..<6] = replicate 6 None"
      by (simp add: nanpercentile_def map_replicate_const)
  qed
  show ?thesis
    by (rule exI [of _ p], rule exI [of _ s], rule exI [of _ st'],
        rule exI [of _ "map ?q1 [0..<6]"], rule exI [of _ "map ?q2 [0..<6]"],
        rule exI [of _ "map ?q3 [0..<6]"])
       (intro conjI run idx cols lens empty)
qed

theorem no_validation_full_table_witness:
  "has_columns (heap (store_of empty_draws) 0) [] [] \<and>
   (\<exists>pred_df_stan summary_stan st'.
      script 0 (store_of empty_draws) = Inr (pred_df_stan, summary_stan, st') \<and>
      index (heap st' summary_stan) = [0..<6] \<and>
      getitem (heap st' summary_stan) ''y_025'' = Inr (replicate 6 None) \<and>
      getitem (heap st' summary_stan) ''y_500'' = Inr (replicate 6 None) \<and>
      getitem (heap st' summary_stan) ''y_975'' = Inr (replicate 6 None))"
  using no_validation_full_table [OF has_columns_empty] has_columns_empty by auto

text \<open>
  Claim C6, as the spec states it: with a single draw the three cells of the row at every
  query point all equal the draw's predicted value. For the single draw with intercept and slope
  1e308 the predicted value at \<open>x = 1\<close> overflows to \<open>+inf\<close>, and the row holds NaN
  in its three cells, not that value.
\<close>

theorem overflow_single_draw_counterexample:
  "bind_err (summary_of (script 0 (store_of overflow_draw))) (\<lambda>S. summary_row S 1) \<noteq>
     Inr (Some (predictive_sample huge huge 1), Some (predictive_sample huge huge 1),
          Some (predictive_sample huge huge 1))"
  using overflow_row by simp

text \<open>
  Claim C6, amended: with a single draw \<open>(a, b)\<close> of magnitude at most \<open>2^1020\<close> the
  three quantile columns agree: at every query point \<open>x\<close> the lower bound, the median
  and the upper bound are all \<open>a + b * x\<close>.
\<close>

theorem single_draw_rows:
  assumes "holds_draws (heap st stan_results) [a] [b]"
    and "\<bar>a\<bar> \<le> draw_bound" and "\<bar>b\<bar> \<le> draw_bound"
  shows "\<exists>pred_df_stan summary_stan st'.
           script stan_results st = Inr (pred_df_stan, summary_stan, st') \<and>
           getitem (heap st' summary_stan) ''y_025'' =
             Inr (map (\<lambda>x. Some (Finite (a + b * real x))) [0..<6]) \<and>
           getitem (heap st' summary_stan) ''y_500'' =
             Inr (map (\<lambda>x. Some (Finite (a + b * real x))) [0..<6]) \<and>
           getitem (heap st' summary_stan) ''y_975'' =
             Inr (map (\<lambda>x. Some (Finite (a + b * real x))) [0..<6])"
proof -
  from script_ok [OF assms(1)] obtain p s st' where
    run: "script stan_results st = Inr (p, s, st')"
    and tab: "heap st' s = filled_summary (\<lambda>x. nanpercentile (predictive [a] [b] x) 0.025)
                          (\<lambda>x. nanpercentile (predictive [a] [b] x) 0.5)
                          (\<lambda>x. nanpercentile (predictive [a] [b] x) 0.975)"
    by blast
  have one: "nanpercentile (predictive [a] [b] x) q = Some (Finite (a + b * real x))"
    if "x < 6" for x q
    using predictive_sample_bounded [OF assms(2,3) that]
    by (simp add: predictive_def nanpercentile_def percentile_single)
  have tab': "heap st' s = filled_summary (\<lambda>x. Some (Finite (a + b * real x)))
                (\<lambda>x. Some (Finite (a + b * real x))) (\<lambda>x. Some (Finite (a + b * real x)))"
    unfolding tab by (rule filled_summary_cong) (rule one; assumption)+
  have "getitem (heap st' s) ''y_025'' = Inr (map (\<lambda>x. Some (Finite (a + b * real x))) [0..<6])"
    "getitem (heap st' s) ''y_500'' = Inr (map (\<lambda>x. Some (Finite (a + b * real x))) [0..<6])"
    "getitem (heap st' s) ''y_975'' = Inr (map (\<lambda>x. Some (Finite (a + b * real x))) [0..<6])"
    unfolding tab' by (rule filled_summary_cols)+
  with run show ?thesis by blast
qed

theorem single_draw_rows_witness:
  "holds_draws (heap (store_of single_draw) 0) [3] [2] \<and>
   \<bar>3 :: real\<bar> \<le> draw_bound \<and> \<bar>2 :: real\<bar> \<le> draw_bound \<and>
   (\<exists>pred_df_stan summary_stan st'.
      script 0 (store_of single_draw) = Inr (pred_df_stan, summary_stan, st') \<and>
      getitem (heap st' summary_stan) ''y_025'' =
        Inr (map (\<lambda>x. Some (Finite (3 + 2 * real x))) [0..<6]) \<and>
      getitem (heap st' summary_stan) ''y_500'' =
        Inr (map (\<lambda>x. Some (Finite (3 + 2 * real x))) [0..<6]) \<and>
      getitem (heap st' summary_stan) ''y_975'' =
        Inr (map (\<lambda>x. Some (Finite (3 + 2 * real x))) [0..<6]))"
proof -
  have b: "\<bar>3 :: real\<bar> \<le> draw_bound" "\<bar>2 :: real\<bar> \<le> draw_bound"
    by (simp_all add: draw_bound_def)
  from single_draw_rows [OF holds_single b] holds_single b show ?thesis by (intro conjI)
qed

text \<open>
  Claim C7, as the spec states it: when the coverage increases, the new lower bound is at
  most the old one and the new upper bound at least the old one, for every draw set and
  query point. The scripts have no coverage argument: whatever coverage is meant, the
  bounds are the quantiles at 0.025 and 0.975 of the predictive samples. For the single
  draw with intercept and slope 1e308 both bounds at \<open>x = 1\<close> are NaN, and NaN does not
  compare as less than or equal to NaN.
\<close>

theorem overflow_interval_counterexample:
  "bind_err (summary_of (script 0 (store_of overflow_draw))) (\<lambda>S. loc_getitem S 1 ''y_025'') =
     Inr None \<and>
   bind_err (summary_of (script 0 (store_of overflow_draw))) (\<lambda>S. loc_getitem S 1 ''y_975'') =
     Inr None \<and>
   \<not> (cell_le None None \<and> cell_le None None)"
  using overflow_bounds by simp

text \<open>
  Claim C7, amended: the scripts take no coverage and produce, at every query point, the
  interval of coverage 0.95. For every non-empty draw set whose intercepts and slopes have
  magnitude at most \<open>2^1020\<close>, that interval contains the central interval of the same
  predictive samples for every coverage \<open>c \<le> 0.95\<close> (lower tail \<open>(1 - c) / 2\<close>, upper
  tail \<open>1 - (1 - c) / 2\<close>) and is contained in it for every coverage \<open>c \<ge> 0.95\<close>.
\<close>

theorem produced_interval_is_of_coverage_95:
  assumes "holds_draws (heap st stan_results) avs bvs" and "avs \<noteq> []"
    and "bounded_draws avs" and "bounded_draws bvs"
    and "0 < c" and "c < 1"
  shows "\<exists>pred_df_stan summary_stan st' lower upper.
           script stan_results st = Inr (pred_df_stan, summary_stan, st') \<and>
           getitem (heap st' summary_stan) ''y_025'' = Inr (map (\<lambda>v. Some (Finite v)) lower) \<and>
           getitem (heap st' summary_stan) ''y_975'' = Inr (map (\<lambda>v. Some (Finite v)) upper) \<and>
           length lower = 6 \<and> length upper = 6 \<and>
           (\<forall>x < 6. \<exists>l u.
              quantile (map Some (predictive avs bvs x)) ((1 - c) / 2) = Inr (Some (Finite l)) \<and>
              quantile (map Some (predictive avs bvs x)) (1 - (1 - c) / 2) = Inr (Some (Finite u)) \<and>
              (c \<le> 95 / 100 \<longrightarrow> lower ! x \<le> l \<and> u \<le> upper ! x) \<and>
              (95 / 100 \<le> c \<longrightarrow> l \<le> lower ! x \<and> upper ! x \<le> u))"
proof -
  from script_ok [OF assms(1)] obtain p s st' where
    run: "script stan_results st = Inr (p, s, st')"
    and tab: "heap st' s = filled_summary (\<lambda>x. nanpercentile (predictive avs bvs x) 0.025)
                          (\<lambda>x. nanpercentile (predictive avs bvs x) 0.5)
                          (\<lambda>x. nanpercentile (predictive avs bvs x) 0.975)"
    by blast
  have len: "length avs = length bvs" using assms(1) by (simp add: holds_draws_def)
  define vs where "vs x = map (\<lambda>(a, b). a + b * real x) (zip avs bvs)" for x
  have ne: "vs x \<noteq> []" for x
    using assms(2) len by (cases avs; cases bvs) (simp_all add: vs_def)
  have fin: "predictive avs bvs x = map Finite (vs x)" if "x < 6" for x
    unfolding vs_def using assms(3,4) that by (rule predictive_bounded)
  define Q where "Q q x = interp (sort (vs x)) (q * real (length (vs x) - 1))" for q x
  have nq: "nanpercentile (predictive avs bvs x) q = Some (Finite (Q q x))"
    if "x < 6" "0 \<le> q" "q \<le> 1" for x q
    using percentile_Finite [OF ne that(2,3), of x] ne [of x]
    by (simp add: nanpercentile_def fin [OF that(1)] Q_def)
  have tab': "heap st' s = filled_summary (\<lambda>x. Some (Finite (Q 0.025 x)))
                (\<lambda>x. Some (Finite (Q 0.5 x))) (\<lambda>x. Some (Finite (Q 0.975 x)))"
    unfolding tab by (rule filled_summary_cong) (rule nq; simp)+
  let ?lo = "map (Q 0.025) [0..<6]"
  let ?hi = "map (Q 0.975) [0..<6]"
  have cols: "getitem (heap st' s) ''y_025'' = Inr (map (\<lambda>v. Some (Finite v)) ?lo)"
    "getitem (heap st' s) ''y_975'' = Inr (map (\<lambda>v. Some (Finite v)) ?hi)"
    unfolding tab' filled_summary_cols by (simp_all add: comp_def)
  have lens: "length ?lo = 6" "length ?hi = 6" by simp_all
  have tails: "0 \<le> (1 - c) / 2" "(1 - c) / 2 \<le> 1" "0 \<le> 1 - (1 - c) / 2" "1 - (1 - c) / 2 \<le> 1"
    using assms(5,6) by simp_all
  have each: "\<exists>l u.
        quantile (map Some (predictive avs bvs x)) ((1 - c) / 2) = Inr (Some (Finite l)) \<and>
        quantile (map Some (predictive avs bvs x)) (1 - (1 - c) / 2) = Inr (Some (Finite u)) \<and>
        (c \<le> 95 / 100 \<longrightarrow> ?lo ! x \<le> l \<and> u \<le> ?hi ! x) \<and>
        (95 / 100 \<le> c \<longrightarrow> l \<le> ?lo ! x \<and> ?hi ! x \<le> u)" if x: "x < 6" for x
  proof -
    have ql: "quantile (map Some (predictive avs bvs x)) ((1 - c) / 2) =
                Inr (Some (Finite (Q ((1 - c) / 2) x)))"
      using nq [OF x tails(1,2)] tails(1,2) by (simp add: quantile_def)
    have qu: "quantile (map Some (predictive avs bvs x)) (1 - (1 - c) / 2) =
                Inr (Some (Finite (Q (1 - (1 - c) / 2) x)))"
      using nq [OF x tails(3,4)] tails(3,4) by (simp add: quantile_def)
    have inner: "Q 0.025 x \<le> Q ((1 - c) / 2) x \<and> Q (1 - (1 - c) / 2) x \<le> Q 0.975 x"
      if "c \<le> 95 / 100"
    proof
      show "Q 0.025 x \<le> Q ((1 - c) / 2) x"
        unfolding Q_def by (rule quantile_mono [OF ne]) (use that tails in simp_all)
      show "Q (1 - (1 - c) / 2) x \<le> Q 0.975 x"
        unfolding Q_def by (rule quantile_mono [OF ne]) (use that tails in simp_all)
    qed
    have outer: "Q ((1 - c) / 2) x \<le> Q 0.025 x \<and> Q 0.975 x \<le> Q (1 - (1 - c) / 2) x"
      if "95 / 100 \<le> c"
    proof
      show "Q ((1 - c) / 2) x \<le> Q 0.025 x"
        unfolding Q_def by (rule quantile_mono [OF ne]) (use that tails in simp_all)
      show "Q 0.975 x \<le> Q (1 - (1 - c) / 2) x"
        unfolding Q_def by (rule quantile_mono [OF ne]) (use that tails in simp_all)
    qed
    have nth: "?lo ! x = Q 0.025 x" "?hi ! x = Q 0.975 x" using x by simp_all
    show ?thesis
      by (rule exI [of _ "Q ((1 - c) / 2) x"], rule exI [of _ "Q (1 - (1 - c) / 2) x"])
         (use ql qu inner outer nth in auto)
  qed
  show ?thesis
    by (rule exI [of _ p], rule exI [of _ s], rule exI [of _ st'],
        rule exI [of _ ?lo], rule exI [of _ ?hi])
       (use run cols lens each in blast)
qed

theorem produced_interval_is_of_coverage_95_witness:
  "holds_draws (heap (store_of scenario_draws) 0) [0, 2, 4] [1, 1, 1] \<and>
   [0, 2, 4] \<noteq> ([] :: real list) \<and> bounded_draws [0, 2, 4] \<and> bounded_draws [1, 1, 1] \<and>
   (0 :: real) < 1 / 2 \<and> (1 / 2 :: real) < 1 \<and>
   (\<exists>pred_df_stan summary_stan st' lower upper.
      script 0 (store_of scenario_draws) = Inr (pred_df_stan, summary_stan, st') \<and>
      getitem (heap st' summary_stan) ''y_025'' = Inr (map (\<lambda>v. Some (Finite v)) lower) \<and>
      getitem (heap st' summary_stan) ''y_975'' = Inr (map (\<lambda>v. Some (Finite v)) upper) \<and>
      length lower = 6 \<and> length upper = 6 \<and>
      (\<forall>x < 6. \<exists>l u.
         quantile (map Some (predictive [0, 2, 4] [1, 1, 1] x)) ((1 - 1 / 2) / 2) = Inr (Some (Finite l)) \<and>
         quantile (map Some (predictive [0, 2, 4] [1, 1, 1] x)) (1 - (1 - 1 / 2) / 2) = Inr (Some (Finite u)) \<and>
         lower ! x \<le> l \<and> u \<le> upper ! x))"
proof -
  have h: "[0, 2, 4] \<noteq> ([] :: real list)" "(0 :: real) < 1 / 2" "(1 / 2 :: real) < 1"
    by simp_all
  from produced_interval_is_of_coverage_95
         [OF holds_scenario h(1) bounded_small(1,2) h(2,3)]
  obtain p s st' lower upper where
    r: "script 0 (store_of scenario_draws) = Inr (p, s, st')"
      "getitem (heap st' s) ''y_025'' = Inr (map (\<lambda>v. Some (Finite v)) lower)"
      "getitem (heap st' s) ''y_975'' = Inr (map (\<lambda>v. Some (Finite v)) upper)"
      "length lower = 6" "length upper = 6"
    and e: "\<forall>x < 6. \<exists>l u.
         quantile (map Some (predictive [0, 2, 4] [1, 1, 1] x)) ((1 - 1 / 2) / 2) = Inr (Some (Finite l)) \<and>
         quantile (map Some (predictive [0, 2, 4] [1, 1, 1] x)) (1 - (1 - 1 / 2) / 2) = Inr (Some (Finite u)) \<and>
         (1 / 2 \<le> (95 / 100 :: real) \<longrightarrow> lower ! x \<le> l \<and> u \<le> upper ! x) \<and>
         ((95 / 100 :: real) \<le> 1 / 2 \<longrightarrow> l \<le> lower ! x \<and> upper ! x \<le> u)"
    by blast
  have e': "\<forall>x < 6. \<exists>l u.
         quantile (map Some (predictive [0, 2, 4] [1, 1, 1] x)) ((1 - 1 / 2) / 2) = Inr (Some (Finite l)) \<and>
         quantile (map Some (predictive [0, 2, 4] [1, 1, 1] x)) (1 - (1 - 1 / 2) / 2) = Inr (Some (Finite u)) \<and>
         lower ! x \<le> l \<and> u \<le> upper ! x"
  proof (intro allI impI)
    fix x :: nat assume "x < 6"
    with e obtain l u where
      "quantile (map Some (predictive [0, 2, 4] [1, 1, 1] x)) ((1 - 1 / 2) / 2) = Inr (Some (Finite l))"
      "quantile (map Some (predictive [0, 2, 4] [1, 1, 1] x)) (1 - (1 - 1 / 2) / 2) = Inr (Some (Finite u))"
      "(1 / 2 \<le> (95 / 100 :: real) \<longrightarrow> lower ! x \<le> l \<and> u \<le> upper ! x)"
      by blast
    moreover have "1 / 2 \<le> (95 / 100 :: real)" by simp
    ultimately show "\<exists>l u.
         quantile (map Some (predictive [0, 2, 4] [1, 1, 1] x)) ((1 - 1 / 2) / 2) = Inr (Some (Finite l)) \<and>
         quantile (map Some (predictive [0, 2, 4] [1, 1, 1] x)) (1 - (1 - 1 / 2) / 2) = Inr (Some (Finite u)) \<and>
         lower ! x \<le> l \<and> u \<le> upper ! x"
      by blast
  qed
  have ex: "\<exists>pred_df_stan summary_stan st' lower upper.
      script 0 (store_of scenario_draws) = Inr (pred_df_stan, summary_stan, st') \<and>
      getitem (heap st' summary_stan) ''y_025'' = Inr (map (\<lambda>v. Some (Finite v)) lower) \<and>
      getitem (heap st' summary_stan) ''y_975'' = Inr (map (\<lambda>v. Some (Finite v)) upper) \<and>
      length lower = 6 \<and> length upper = 6 \<and>
      (\<forall>x < 6. \<exists>l u.
         quantile (map Some (predictive [0, 2, 4] [1, 1, 1] x)) ((1 - 1 / 2) / 2) = Inr (Some (Finite l)) \<and>
         quantile (map Some (predictive [0, 2, 4] [1, 1, 1] x)) (1 - (1 - 1 / 2) / 2) = Inr (Some (Finite u)) \<and>
         lower ! x \<le> l \<and> u \<le> upper ! x)"
    by (rule exI [of _ p], rule exI [of _ s], rule exI [of _ st'],
        rule exI [of _ lower], rule exI [of _ upper]) (intro conjI r e')
  from holds_scenario h(1) bounded_small(1,2) h(2,3) ex show ?thesis by (intro conjI)
qed

text \<open>
  Claim C9. The statements change no object that existed before they ran; in particular
  the draw table is the same after the run. They write to two new objects only, the copy
  bound to \<^verbatim>\<open>pred_df_stan\<close> and the table bound to \<^verbatim>\<open>summary_stan\<close>. (The query
  points are the immutable \<^verbatim>\<open>range(0, 6)\<close>.)
\<close>

theorem existing_tables_unchanged:
  assumes "script stan_results st = Inr (pred_df_stan, summary_stan, st')"
    and "a < next_addr st"
  shows "heap st' a = heap st a \<and> pred_df_stan \<noteq> a \<and> summary_stan \<noteq> a"
proof -
  from assms(1) obtain PS where
    f: "finish st PS = (pred_df_stan, summary_stan, st')"
    by (cases "script_val (heap st stan_results)") (auto simp: script_val_eq)
  from finish_parts [OF f] assms(2) show ?thesis by auto
qed

theorem existing_tables_unchanged_witness:
  "\<exists>pred_df_stan summary_stan st'.
     script 0 (store_of scenario_draws) = Inr (pred_df_stan, summary_stan, st') \<and>
     0 < next_addr (store_of scenario_draws) \<and>
     heap st' 0 = scenario_draws \<and> pred_df_stan \<noteq> 0 \<and> summary_stan \<noteq> 0"
proof -
  from script_ok [OF holds_scenario] obtain p s st' where
    run: "script 0 (store_of scenario_draws) = Inr (p, s, st')" by blast
  have lt: "0 < next_addr (store_of scenario_draws)" by (simp add: store_of_def)
  have "heap (store_of scenario_draws) 0 = scenario_draws" by (simp add: store_of_def)
  with existing_tables_unchanged [OF run lt] run lt show ?thesis by auto
qed


text \<open>
  Claim C10. The summary table is created with the columns \<^verbatim>\<open>y_025\<close>, \<^verbatim>\<open>y_50\<close>
  and \<^verbatim>\<open>y_975\<close>; the loop never assigns \<^verbatim>\<open>y_50\<close>, which stays missing in every row,
  and writes the medians to a fourth column \<^verbatim>\<open>y_500\<close> that its first pass creates. The
  two derived columns are computed from \<^verbatim>\<open>y_025\<close>, \<^verbatim>\<open>y_500\<close> and \<^verbatim>\<open>y_975\<close>. Both
  scripts have these statements.
\<close>

theorem declared_median_column_never_assigned:
  assumes "holds_draws (heap st stan_results) avs bvs"
  shows "\<exists>pred_df_stan summary_stan st' lower median upper.
           script stan_results st = Inr (pred_df_stan, summary_stan, st') \<and>
           map fst (columns (heap st' summary_stan)) =
             [''y_025'', ''y_50'', ''y_975'', ''y_500'', ''ci_lower_diff'', ''ci_upper_diff''] \<and>
           getitem (heap st' summary_stan) ''y_50'' = Inr (replicate 6 None) \<and>
           getitem (heap st' summary_stan) ''y_025'' = Inr lower \<and>
           getitem (heap st' summary_stan) ''y_500'' = Inr median \<and>
           getitem (heap st' summary_stan) ''y_975'' = Inr upper \<and>
           median = map (\<lambda>x. nanpercentile (predictive avs bvs x) 0.5) [0..<6] \<and>
           getitem (heap st' summary_stan) ''ci_lower_diff'' = Inr (series_sub lower median) \<and>
           getitem (heap st' summary_stan) ''ci_upper_diff'' = Inr (series_sub median upper)"
proof -
  from script_ok [OF assms] obtain p s st' where
    run: "script stan_results st = Inr (p, s, st')"
    and tab: "heap st' s = filled_summary (\<lambda>x. nanpercentile (predictive avs bvs x) 0.025)
                          (\<lambda>x. nanpercentile (predictive avs bvs x) 0.5)
                          (\<lambda>x. nanpercentile (predictive avs bvs x) 0.975)"
    by blast
  let ?T = "heap st' s"
  have c: "map fst (columns ?T) =
             [''y_025'', ''y_50'', ''y_975'', ''y_500'', ''ci_lower_diff'', ''ci_upper_diff'']"
    "getitem ?T ''y_50'' = Inr (replicate 6 None)"
    "getitem ?T ''y_025'' = Inr (map (\<lambda>x. nanpercentile (predictive avs bvs x) 0.025) [0..<6])"
    "getitem ?T ''y_500'' = Inr (map (\<lambda>x. nanpercentile (predictive avs bvs x) 0.5) [0..<6])"
    "getitem ?T ''y_975'' = Inr (map (\<lambda>x. nanpercentile (predictive avs bvs x) 0.975) [0..<6])"
    "getitem ?T ''ci_lower_diff'' =
       Inr (series_sub (map (\<lambda>x. nanpercentile (predictive avs bvs x) 0.025) [0..<6])
              (map (\<lambda>x. nanpercentile (predictive avs bvs x) 0.5) [0..<6]))"
    "getitem ?T ''ci_upper_diff'' =
       Inr (series_sub (map (\<lambda>x. nanpercentile (predictive avs bvs x) 0.5) [0..<6])
              (map (\<lambda>x. nanpercentile (predictive avs bvs x) 0.975) [0..<6]))"
    unfolding tab by (rule filled_summary_cols)+
  show ?thesis
    by (rule exI [of _ p], rule exI [of _ s], rule exI [of _ st'],
        rule exI [of _ "map (\<lambda>x. nanpercentile (predictive avs bvs x) 0.025) [0..<6]"],
        rule exI [of _ "map (\<lambda>x. nanpercentile (predictive avs bvs x) 0.5) [0..<6]"],
        rule exI [of _ "map (\<lambda>x. nanpercentile (predictive avs bvs x) 0.975) [0..<6]"])
       (intro conjI run c refl)
qed

theorem declared_median_column_never_assigned_witness:
  "holds_draws (heap (store_of scenario_draws) 0) [0, 2, 4] [1, 1, 1] \<and>
   (\<exists>pred_df_stan summary_stan st' lower median upper.
      script 0 (store_of scenario_draws) = Inr (pred_df_stan, summary_stan, st') \<and>
      map fst (columns (heap st' summary_stan)) =
        [''y_025'', ''y_50'', ''y_975'', ''y_500'', ''ci_lower_diff'', ''ci_upper_diff''] \<and>
      getitem (heap st' summary_stan) ''y_50'' = Inr (replicate 6 None) \<and>
      getitem (heap st' summary_stan) ''y_025'' = Inr lower \<and>
      getitem (heap st' summary_stan) ''y_500'' = Inr median \<and>
      getitem (heap st' summary_stan) ''y_975'' = Inr upper \<and>
      median = map (\<lambda>x. nanpercentile (predictive [0, 2, 4] [1, 1, 1] x) 0.5) [0..<6] \<and>
      getitem (heap st' summary_stan) ''ci_lower_diff'' = Inr (series_sub lower median) \<and>
      getitem (heap st' summary_stan) ''ci_upper_diff'' = Inr (series_sub median upper))"
  using declared_median_column_never_assigned [OF holds_scenario] holds_scenario
  by (intro conjI)

end
